theory Spec2Isabelle
  imports Main "HOL-Library.AList"
begin

section \<open>The Roblox status API of \<open>src/server.js\<close>\<close>

text \<open>
  The server answers \<open>POST /api/status\<close>: it cleans the submitted usernames, resolves
  them to user IDs in batches of 100, fetches the presence of all resolved IDs in one
  call, and builds one result record per cleaned username. The three upstream services
  are parameters of the model (a record of functions from request to answer), and every
  function that may call one returns the list of the calls it made, in order, next to
  its value.
\<close>

subsection \<open>Strings\<close>

text \<open>
  A \<open>char\<close> stands for a UTF-16 code unit below 256. \<open>String.prototype.trim\<close> strips
  white space and line terminators (TAB, LF, VT, FF, CR, SP, NBSP in this range), and
  \<open>toLowerCase\<close> folds A-Z and the Latin-1 capitals.
\<close>

definition isWhiteSpace :: "char \<Rightarrow> bool" where
  "isWhiteSpace c = ((of_char c :: nat) \<in> {9, 10, 11, 12, 13, 32, 160})"

definition trim :: "string \<Rightarrow> string" where
  "trim s = rev (dropWhile isWhiteSpace (rev (dropWhile isWhiteSpace s)))"

definition lowerChar :: "char \<Rightarrow> char" where
  "lowerChar c =
     (let n = (of_char c :: nat) in
      if (65 \<le> n \<and> n \<le> 90) \<or> (192 \<le> n \<and> n \<le> 222 \<and> n \<noteq> 215)
      then char_of (n + 32) else c)"

definition toLowerCase :: "string \<Rightarrow> string" where
  "toLowerCase s = map lowerChar s"

subsection \<open>JavaScript values: truthiness, Set, plain objects\<close>

text \<open>
  \<open>new Set(xs)\<close> adds the elements of \<open>xs\<close> one by one; an element already in the set
  (the same string, letter case included) is not added again, and the spread
  \<open>[...set]\<close> lists the elements in the order they were added.
\<close>

definition Set_add :: "'a list \<Rightarrow> 'a \<Rightarrow> 'a list" where
  "Set_add s x = (if x \<in> set s then s else s @ [x])"

definition new_Set :: "'a list \<Rightarrow> 'a list" where
  "new_Set xs = foldl Set_add [] xs"

text \<open>
  \<open>userMap\<close> is created as \<open>{}\<close>, a plain object: its own properties are kept in the
  order they were created, a write to an existing key keeps the key's place, and a read
  of a key that is not an own property goes on to \<open>Object.prototype\<close>. The value found
  there is a function (or, for \<open>__proto__\<close>, the prototype object itself): \<open>Proto\<close>.
  A write to \<open>__proto__\<close> with a number runs the inherited setter, which ignores it.
\<close>

type_synonym 'v object = "(string \<times> 'v) list"

datatype js_value = Undefined | Num nat | Proto

definition Object_prototype_keys :: "string list" where
  "Object_prototype_keys =
     [''constructor'', ''__defineGetter__'', ''__defineSetter__'', ''hasOwnProperty'',
      ''__lookupGetter__'', ''__lookupSetter__'', ''isPrototypeOf'',
      ''propertyIsEnumerable'', ''toString'', ''valueOf'', ''__proto__'',
      ''toLocaleString'']"

definition prop_get :: "nat object \<Rightarrow> string \<Rightarrow> js_value" where
  "prop_get obj k =
     (case map_of obj k of
        Some v \<Rightarrow> Num v
      | None \<Rightarrow> if k \<in> set Object_prototype_keys then Proto else Undefined)"

definition prop_set :: "'v object \<Rightarrow> string \<Rightarrow> 'v \<Rightarrow> 'v object" where
  "prop_set obj k v = (if k = ''__proto__'' then obj else AList.update k v obj)"

text \<open>\<open>!v\<close>: \<open>undefined\<close> and the number 0 are falsy, a function or object is truthy.\<close>

fun falsy :: "js_value \<Rightarrow> bool" where
  "falsy Undefined = True"
| "falsy (Num n) = (n = 0)"
| "falsy Proto = False"

text \<open>An optional numeric field (\<open>null\<close> or absent is \<open>None\<close>): \<open>!x\<close> and \<open>a || b\<close>.\<close>

fun absent :: "nat option \<Rightarrow> bool" where
  "absent None = True"
| "absent (Some n) = (n = 0)"

definition js_or :: "nat option \<Rightarrow> nat option \<Rightarrow> nat option" where
  "js_or a b = (if absent a then b else a)"

text \<open>
  \<open>Object.entries\<close> and \<open>Object.values\<close> list the own properties with the array-index
  keys first (canonical decimal strings below \<open>2^32 - 1\<close>, in ascending numeric order),
  then the other keys in creation order.
\<close>

definition isDigit :: "char \<Rightarrow> bool" where
  "isDigit c = (48 \<le> (of_char c :: nat) \<and> (of_char c :: nat) \<le> 57)"

definition digitsValue :: "string \<Rightarrow> nat" where
  "digitsValue k = foldl (\<lambda>n c. 10 * n + ((of_char c :: nat) - 48)) 0 k"

definition isArrayIndex :: "string \<Rightarrow> bool" where
  "isArrayIndex k =
     (k \<noteq> [] \<and> list_all isDigit k \<and> (k = ''0'' \<or> hd k \<noteq> CHR ''0'')
      \<and> digitsValue k < 4294967295)"

definition Object_entries :: "'v object \<Rightarrow> (string \<times> 'v) list" where
  "Object_entries obj =
     sort_key (\<lambda>kv. digitsValue (fst kv)) (filter (\<lambda>kv. isArrayIndex (fst kv)) obj)
     @ filter (\<lambda>kv. \<not> isArrayIndex (fst kv)) obj"

definition Object_values :: "'v object \<Rightarrow> 'v list" where
  "Object_values obj = map snd (Object_entries obj)"

subsection \<open>The upstream services\<close>

text \<open>
  Each service is a function from the request to its answer. An answer is \<open>None\<close>
  when the request throws (network error, non-2xx status), and otherwise the array of
  the body, with the fields the code reads:
  \<^item> \<open>POST users.roblox.com/v1/usernames/users\<close>: the \<open>{name, id}\<close> pairs of \<open>data\<close>,
    the name \<open>None\<close> for an entry whose \<open>name\<close> is no string;
  \<^item> \<open>POST presence.roblox.com/v1/presence/users\<close>: the records of \<open>userPresences\<close>;
  \<^item> \<open>GET games.roblox.com/v1/games/multiget-place-details\<close>: the \<open>name\<close> of each entry.

  For the name lookup and the place lookup a body without the array throws inside the
  same \<open>try\<close> as the request, before anything is stored, and is \<open>None\<close> as well.
  Otherwise a 2xx body is taken to have the shape the service documents: IDs and
  presence types are numbers, place names strings, \<open>placeId\<close> and \<open>universeId\<close> numbers
  or \<open>null\<close>. The presence body is read outside the \<open>try\<close>, so for it the shape is an
  assumption of the model.
\<close>

type_synonym headers = "(string \<times> string) list"

record presence =
  userId :: nat
  userPresenceType :: int
  placeId :: "nat option"
  universeId :: "nat option"
  lastLocation :: string

record upstream =
  usernames_users :: "string list \<Rightarrow> (string option \<times> nat) list option"
  presence_users :: "headers \<Rightarrow> nat list \<Rightarrow> presence list option"
  place_details :: "headers \<Rightarrow> nat \<Rightarrow> string list option"

datatype call =
    UsersCall "string list"
  | PresenceCall headers "nat list"
  | PlaceCall headers nat

definition getHeaders :: "string option \<Rightarrow> headers" where
  "getHeaders cookie =
     (case cookie of
        None \<Rightarrow> []
      | Some c \<Rightarrow> if c = [] then [] else [(''Cookie'', ''.ROBLOSECURITY='' @ c)])"

subsection \<open>\<open>getUserIds\<close>\<close>

function chunksFrom :: "nat \<Rightarrow> 'a list \<Rightarrow> 'a list list" where
  "chunksFrom i usernames =
     (if i < length usernames
      then take 100 (drop i usernames) # chunksFrom (i + 100) usernames
      else [])"
  by pat_completeness auto
termination
  by (relation "measure (\<lambda>(i, usernames). length usernames - i)") auto

declare chunksFrom.simps [simp del]

text \<open>
  \<open>resp.data.data.forEach(user => userMap[user.name.toLowerCase()] = user.id)\<close>. At an
  entry whose name is no string \<open>toLowerCase\<close> throws: the \<open>forEach\<close> is left for the
  \<open>catch\<close> of the batch, and what the entries before it stored stays in \<open>userMap\<close>.
\<close>

fun storeUsers :: "nat object \<Rightarrow> (string option \<times> nat) list \<Rightarrow> nat object" where
  "storeUsers userMap [] = userMap"
| "storeUsers userMap (user # users) =
     (case fst user of
        None \<Rightarrow> userMap
      | Some name \<Rightarrow> storeUsers (prop_set userMap (toLowerCase name) (snd user)) users)"

text \<open>
  The loop over the chunks: one request each; a batch that throws is logged and the loop
  goes on with the next.
\<close>

fun resolveChunks ::
  "upstream \<Rightarrow> string list list \<Rightarrow> nat object \<times> call list \<Rightarrow> nat object \<times> call list"
where
  "resolveChunks up [] (userMap, calls) = (userMap, calls)"
| "resolveChunks up (chunk # chunks) (userMap, calls) =
     (case usernames_users up chunk of
        Some users \<Rightarrow>
          resolveChunks up chunks (storeUsers userMap users, calls @ [UsersCall chunk])
      | None \<Rightarrow> resolveChunks up chunks (userMap, calls @ [UsersCall chunk]))"

definition getUserIds :: "upstream \<Rightarrow> string list \<Rightarrow> nat object \<times> call list" where
  "getUserIds up usernames =
     (if length usernames = 0 then ([], [])
      else resolveChunks up (chunksFrom 0 usernames) ([], []))"

subsection \<open>\<open>getGameInfo\<close>\<close>

definition getGameInfo :: "upstream \<Rightarrow> nat option \<Rightarrow> string option \<Rightarrow> string \<times> call list" where
  "getGameInfo up ident cookie =
     (case ident of
        None \<Rightarrow> (''Unknown Place'', [])
      | Some i \<Rightarrow>
          if i = 0 then (''Unknown Place'', [])
          else
            (let headers = getHeaders cookie in
             (case place_details up headers i of
                Some (name # others) \<Rightarrow> if name = [] then ''Unknown Place'' else name
              | Some [] \<Rightarrow> ''Unknown Place''
              | None \<Rightarrow> ''Unknown Place'',
              [PlaceCall headers i])))"

subsection \<open>\<open>POST /api/status\<close>\<close>

text \<open>
  A result record is \<open>{username, error}\<close> or \<open>{username, userId, status, placeId,
  universeId, mapName, lastLocation}\<close>.
\<close>

datatype status_result =
    ErrorResult string string
  | StatusResult string js_value string "nat option" "nat option" string string

fun username :: "status_result \<Rightarrow> string" where
  "username (ErrorResult u e) = u"
| "username (StatusResult u i s p v m l) = u"

fun error :: "status_result \<Rightarrow> string option" where
  "error (ErrorResult u e) = Some e"
| "error (StatusResult u i s p v m l) = None"

fun status :: "status_result \<Rightarrow> string option" where
  "status (ErrorResult u e) = None"
| "status (StatusResult u i s p v m l) = Some s"

fun mapName :: "status_result \<Rightarrow> string option" where
  "mapName (ErrorResult u e) = None"
| "mapName (StatusResult u i s p v m l) = Some m"

datatype response = Status400 string | Status200 "status_result list"

text \<open>
  \<open>presenceMap\<close> and \<open>userIdToUsernameMap\<close> are keyed by user ID. A read with a key
  that is not a number (the function or object a \<open>userMap\<close> read found on the prototype)
  finds nothing: its key string is no decimal numeral.
\<close>

definition byId :: "(nat \<rightharpoonup> 'v) \<Rightarrow> js_value \<Rightarrow> 'v option" where
  "byId m v = (case v of Num n \<Rightarrow> m n | _ \<Rightarrow> None)"

definition mkPresenceMap :: "presence list \<Rightarrow> (nat \<rightharpoonup> presence)" where
  "mkPresenceMap userPresences = fold (\<lambda>p m. m(userId p \<mapsto> p)) userPresences Map.empty"

definition mkUserIdToUsernameMap :: "nat object \<Rightarrow> (nat \<rightharpoonup> string)" where
  "mkUserIdToUsernameMap userMap =
     fold (\<lambda>entry acc. acc(snd entry \<mapsto> fst entry)) (Object_entries userMap) Map.empty"

text \<open>The body of the loop over \<open>uniqueUsers\<close>: the record pushed and the calls made.\<close>

definition statusOf ::
  "upstream \<Rightarrow> string option \<Rightarrow> nat object \<Rightarrow> (nat \<rightharpoonup> presence) \<Rightarrow> (nat \<rightharpoonup> string) \<Rightarrow> string
   \<Rightarrow> status_result \<times> call list"
where
  "statusOf up cookie userMap presenceMap userIdToUsernameMap name =
     (let uid = prop_get userMap (toLowerCase name) in
      if falsy uid then (ErrorResult name ''Pengguna tidak ditemukan di Roblox.'', [])
      else
        (let shown = (case byId userIdToUsernameMap uid of
                        Some k \<Rightarrow> if k = [] then name else k
                      | None \<Rightarrow> name) in
         (case byId presenceMap uid of
            None \<Rightarrow>
              (StatusResult shown uid ''Offline'' None None ''Offline'' ''Offline'', [])
          | Some p \<Rightarrow>
              if userPresenceType p = 3 then
                (let (place, calls) = getGameInfo up (js_or (universeId p) (placeId p)) cookie in
                 (StatusResult shown uid ''In Game'' (placeId p) (universeId p)
                    (if absent (placeId p) then ''In Game (placeId hidden)'' else place)
                    (lastLocation p),
                  calls))
              else if userPresenceType p = 2 then
                (StatusResult shown uid ''In Game'' (placeId p) (universeId p)
                   ''In Studio'' (lastLocation p), [])
              else if userPresenceType p = 1 then
                (StatusResult shown uid ''Online'' (placeId p) (universeId p)
                   ''Online di Website'' (lastLocation p), [])
              else
                (StatusResult shown uid ''Offline'' (placeId p) (universeId p)
                   ''Offline'' (lastLocation p), []))))"

fun gather ::
  "upstream \<Rightarrow> string option \<Rightarrow> nat object \<Rightarrow> (nat \<rightharpoonup> presence) \<Rightarrow> (nat \<rightharpoonup> string)
   \<Rightarrow> string list \<Rightarrow> status_result list \<times> call list \<Rightarrow> status_result list \<times> call list"
where
  "gather up cookie userMap presenceMap userIdToUsernameMap [] (results, calls) =
     (results, calls)"
| "gather up cookie userMap presenceMap userIdToUsernameMap (name # rest) (results, calls) =
     (let (r, cs) = statusOf up cookie userMap presenceMap userIdToUsernameMap name in
      gather up cookie userMap presenceMap userIdToUsernameMap rest
        (results @ [r], calls @ cs))"

definition uniqueUsers :: "string list \<Rightarrow> string list" where
  "uniqueUsers users = new_Set (filter (\<lambda>u. u \<noteq> []) (map trim users))"

definition fetchPresence :: "upstream \<Rightarrow> headers \<Rightarrow> nat list \<Rightarrow> presence list \<times> call list" where
  "fetchPresence up headers validUserIds =
     (if length validUserIds > 0 then
        (case presence_users up headers validUserIds of
           Some userPresences \<Rightarrow> userPresences
         | None \<Rightarrow> [],
         [PresenceCall headers validUserIds])
      else ([], []))"

text \<open>
  The handler. \<open>req.body.users\<close> is absent (\<open>None\<close>) or an array of strings, the
  cookie is the optional \<open>x-roblox-cookie\<close> header; the result is the response sent and
  the upstream calls made, in order.
\<close>

definition api_status :: "upstream \<Rightarrow> string option \<Rightarrow> string list option \<Rightarrow> response \<times> call list" where
  "api_status up cookie body_users =
     (case body_users of
        None \<Rightarrow> (Status400 ''Daftar pengguna kosong.'', [])
      | Some users \<Rightarrow>
          if length users = 0 then (Status400 ''Daftar pengguna kosong.'', [])
          else
            (let (userMap, calls1) = getUserIds up (uniqueUsers users);
                 validUserIds = Object_values userMap;
                 (userPresences, calls2) = fetchPresence up (getHeaders cookie) validUserIds;
                 presenceMap = mkPresenceMap userPresences;
                 userIdToUsernameMap = mkUserIdToUsernameMap userMap;
                 (results, calls3) =
                   gather up cookie userMap presenceMap userIdToUsernameMap
                     (uniqueUsers users) ([], calls1 @ calls2)
             in (Status200 results, calls3)))"

subsection \<open>The values one request computes\<close>

text \<open>
  Names for the intermediate values of the handler, as functions of the request: the
  \<open>userMap\<close>, the presence records fetched, the record built for one username and the
  calls made for it. For the resolver: \<open>stored\<close>, the entries of an answer that are
  stored (those before the first entry without a name; all of them when every entry has
  one); \<open>answered\<close>, the entries stored for a batch (none when its request throws); and
  \<open>storeAll\<close>, the writes of a list of named entries, and \<open>keyed\<close>, such a list with the
  names in lower case.
\<close>

definition userMapOf :: "upstream \<Rightarrow> string list \<Rightarrow> nat object" where
  "userMapOf up users = fst (getUserIds up (uniqueUsers users))"

definition presencesOf :: "upstream \<Rightarrow> string option \<Rightarrow> string list \<Rightarrow> presence list" where
  "presencesOf up cookie users =
     fst (fetchPresence up (getHeaders cookie) (Object_values (userMapOf up users)))"

definition recordOf :: "upstream \<Rightarrow> string option \<Rightarrow> string list \<Rightarrow> string \<Rightarrow> status_result" where
  "recordOf up cookie users name =
     fst (statusOf up cookie (userMapOf up users) (mkPresenceMap (presencesOf up cookie users))
            (mkUserIdToUsernameMap (userMapOf up users)) name)"

definition callsOf :: "upstream \<Rightarrow> string option \<Rightarrow> string list \<Rightarrow> string \<Rightarrow> call list" where
  "callsOf up cookie users name =
     snd (statusOf up cookie (userMapOf up users) (mkPresenceMap (presencesOf up cookie users))
            (mkUserIdToUsernameMap (userMapOf up users)) name)"

fun stored :: "(string option \<times> nat) list \<Rightarrow> (string \<times> nat) list" where
  "stored [] = []"
| "stored (user # users) =
     (case fst user of None \<Rightarrow> [] | Some name \<Rightarrow> (name, snd user) # stored users)"

definition answered :: "upstream \<Rightarrow> string list \<Rightarrow> (string \<times> nat) list" where
  "answered up chunk =
     (case usernames_users up chunk of Some users \<Rightarrow> stored users | None \<Rightarrow> [])"

definition storeAll :: "nat object \<Rightarrow> (string \<times> nat) list \<Rightarrow> nat object" where
  "storeAll userMap entries =
     fold (\<lambda>e m. prop_set m (toLowerCase (fst e)) (snd e)) entries userMap"

definition keyed :: "(string \<times> nat) list \<Rightarrow> (string \<times> nat) list" where
  "keyed entries = map (\<lambda>e. (toLowerCase (fst e), snd e)) entries"

fun userIdOf :: "status_result \<Rightarrow> js_value" where
  "userIdOf (ErrorResult u e) = Undefined"
| "userIdOf (StatusResult u i s p v m l) = i"

subsection \<open>Sample upstreams\<close>

text \<open>
  \<open>roblox accounts presences places\<close> answers from three tables: a name lookup finds
  the accounts whose name matches a requested name up to letter case, a presence
  request the records of the requested IDs, a place request the names of the place.
  \<open>outage bad up\<close> fails every name lookup whose batch holds \<open>bad\<close>; \<open>presence_down\<close>
  fails the presence request; \<open>unreachable\<close> fails every request.
\<close>

definition roblox :: "(string \<times> nat) list \<Rightarrow> presence list \<Rightarrow> (nat \<times> string) list \<Rightarrow> upstream" where
  "roblox accounts presences places =
     \<lparr> usernames_users =
         (\<lambda>chunk. Some (map (\<lambda>a. (Some (fst a), snd a))
            (filter (\<lambda>a. toLowerCase (fst a) \<in> set (map toLowerCase chunk)) accounts))),
       presence_users = (\<lambda>h ids. Some (filter (\<lambda>p. userId p \<in> set ids) presences)),
       place_details = (\<lambda>h i. Some (map snd (filter (\<lambda>q. fst q = i) places))) \<rparr>"

definition outage :: "string \<Rightarrow> upstream \<Rightarrow> upstream" where
  "outage bad up =
     up \<lparr> usernames_users := (\<lambda>chunk. if bad \<in> set chunk then None else usernames_users up chunk) \<rparr>"

definition presence_down :: "upstream \<Rightarrow> upstream" where
  "presence_down up = up \<lparr> presence_users := (\<lambda>h ids. None) \<rparr>"

definition unreachable :: upstream where
  "unreachable =
     \<lparr> usernames_users = (\<lambda>chunk. None), presence_users = (\<lambda>h ids. None),
       place_details = (\<lambda>h i. None) \<rparr>"

text \<open>A small world: two accounts, one presence record (of a type outside 0..3), one place.\<close>

definition sample :: upstream where
  "sample =
     roblox [(''Alice'', 7), (''Bob'', 8)]
       [\<lparr>userId = 8, userPresenceType = 4, placeId = Some 5, universeId = Some 6,
          lastLocation = ''Lobby''\<rparr>]
       [(5, ''Fish It'')]"

text \<open>
  A world whose one user is in a game with the place hidden but the universe known.
\<close>

definition hidden_place :: upstream where
  "hidden_place =
     roblox [(''alice'', 7)]
       [\<lparr>userId = 7, userPresenceType = 3, placeId = None, universeId = Some 77,
          lastLocation = ''''\<rparr>]
       [(77, ''Fish It'')]"

text \<open>
  \<open>sampleNames n\<close>: the first \<open>n\<close> of the 256 two-letter names \<open>aa\<close>, \<open>ab\<close>, ...,
  \<open>pp\<close>; and \<open>echo\<close>, an upstream where every requested name is an account whose ID
  is the number its characters spell in base 256.
\<close>

definition letters :: string where
  "letters = ''abcdefghijklmnop''"

definition sampleNames :: "nat \<Rightarrow> string list" where
  "sampleNames n = take n (concat (map (\<lambda>a. map (\<lambda>b. [a, b]) letters) letters))"

definition codeOf :: "string \<Rightarrow> nat" where
  "codeOf u = foldl (\<lambda>n c. 256 * n + of_char c) 0 u"

definition echo :: upstream where
  "echo =
     \<lparr> usernames_users = (\<lambda>chunk. Some (map (\<lambda>u. (Some u, codeOf u)) chunk)),
       presence_users = (\<lambda>h ids. Some []),
       place_details = (\<lambda>h i. Some []) \<rparr>"

text \<open>
  An upstream whose name lookup answers three entries, the second without a name.
\<close>

definition broken_off :: upstream where
  "broken_off =
     \<lparr> usernames_users = (\<lambda>chunk. Some [(Some ''Alice'', 7), (None, 0), (Some ''Bob'', 8)]),
       presence_users = (\<lambda>h ids. Some []),
       place_details = (\<lambda>h i. Some []) \<rparr>"

section \<open>Properties\<close>

subsection \<open>Evaluation\<close>

text \<open>The defining equations, for running the model on a concrete request.\<close>

lemmas string_eval = trim_def isWhiteSpace_def toLowerCase_def lowerChar_def char_of_def bit_0

lemmas model_eval =
  api_status_def uniqueUsers_def new_Set_def Set_add_def getUserIds_def chunksFrom.simps
  prop_set_def prop_get_def Object_prototype_keys_def Object_values_def Object_entries_def
  isArrayIndex_def isDigit_def digitsValue_def fetchPresence_def getHeaders_def
  mkPresenceMap_def mkUserIdToUsernameMap_def statusOf_def byId_def getGameInfo_def js_or_def
  userMapOf_def presencesOf_def recordOf_def callsOf_def answered_def roblox_def outage_def
  presence_down_def unreachable_def sample_def hidden_place_def broken_off_def Let_def

subsection \<open>Strings and sets\<close>

lemma lowerChar_idem: "lowerChar (lowerChar c) = lowerChar c"
  by (simp add: lowerChar_def Let_def)

lemma toLowerCase_idem: "toLowerCase (toLowerCase s) = toLowerCase s"
  by (simp add: toLowerCase_def lowerChar_idem)

lemma toLowerCase_Nil_iff: "toLowerCase s = [] \<longleftrightarrow> s = []"
  by (simp add: toLowerCase_def)

lemma set_Set_add: "set (Set_add s x) = insert x (set s)"
  by (auto simp: Set_add_def)

lemma distinct_Set_add: "distinct s \<Longrightarrow> distinct (Set_add s x)"
  by (simp add: Set_add_def)

lemma foldl_Set_add: "set (foldl Set_add s xs) = set s \<union> set xs"
  by (induction xs arbitrary: s) (auto simp: set_Set_add)

lemma distinct_foldl_Set_add: "distinct s \<Longrightarrow> distinct (foldl Set_add s xs)"
  by (induction xs arbitrary: s) (auto simp: distinct_Set_add)

lemma set_new_Set: "set (new_Set xs) = set xs"
  by (simp add: new_Set_def foldl_Set_add)

lemma distinct_new_Set: "distinct (new_Set xs)"
  by (simp add: new_Set_def distinct_foldl_Set_add)

lemma length_new_Set: "length (new_Set xs) = card (set xs)"
  using distinct_card [OF distinct_new_Set, of xs] by (simp add: set_new_Set)

lemma new_Set_snoc: "new_Set (xs @ [x]) = Set_add (new_Set xs) x"
  by (simp add: new_Set_def)

lemma firstpos_less: "x \<in> set xs \<Longrightarrow> length (takeWhile (\<lambda>y. y \<noteq> x) xs) < length xs"
  by (induction xs) auto

text \<open>The elements of a Set are listed by the position of their first occurrence.\<close>

lemma new_Set_first_occurrence:
  "i < j \<Longrightarrow> j < length (new_Set xs) \<Longrightarrow>
   length (takeWhile (\<lambda>y. y \<noteq> new_Set xs ! i) xs)
     < length (takeWhile (\<lambda>y. y \<noteq> new_Set xs ! j) xs)"
proof (induction xs arbitrary: i j rule: rev_induct)
  case Nil
  then show ?case by (simp add: new_Set_def)
next
  case (snoc x xs)
  have mem: "\<And>k. k < length (new_Set xs) \<Longrightarrow> new_Set xs ! k \<in> set xs"
    using set_new_Set [of xs] nth_mem by blast
  show ?case
  proof (cases "x \<in> set xs")
    case True
    then have same: "new_Set (xs @ [x]) = new_Set xs"
      by (simp add: new_Set_snoc Set_add_def set_new_Set)
    from snoc.prems same have j: "j < length (new_Set xs)" and i: "i < length (new_Set xs)"
      by simp_all
    from snoc.IH [OF snoc.prems(1) j] mem [OF i] mem [OF j] show ?thesis
      by (simp add: same takeWhile_append1)
  next
    case False
    then have ext: "new_Set (xs @ [x]) = new_Set xs @ [x]"
      by (simp add: new_Set_snoc Set_add_def set_new_Set)
    from snoc.prems ext have jle: "j \<le> length (new_Set xs)" by simp
    show ?thesis
    proof (cases "j < length (new_Set xs)")
      case True
      with snoc.prems have i: "i < length (new_Set xs)" by simp
      from snoc.IH [OF snoc.prems(1) True] mem [OF i] mem [OF True] i True show ?thesis
        by (simp add: ext nth_append takeWhile_append1)
    next
      case False
      with jle have j: "j = length (new_Set xs)" by simp
      with snoc.prems have i: "i < length (new_Set xs)" by simp
      have "takeWhile (\<lambda>y. y \<noteq> x) (xs @ [x]) = xs"
        using \<open>x \<notin> set xs\<close> by (subst takeWhile_append2) auto
      moreover have "length (takeWhile (\<lambda>y. y \<noteq> new_Set xs ! i) (xs @ [x])) < length xs"
        using mem [OF i] firstpos_less [of "new_Set xs ! i" xs] by (simp add: takeWhile_append1)
      ultimately show ?thesis
        using i by (simp add: ext j nth_append)
    qed
  qed
qed

lemma firstpos_filter:
  "P x \<Longrightarrow> P y \<Longrightarrow>
   length (takeWhile (\<lambda>z. z \<noteq> x) (filter P xs)) < length (takeWhile (\<lambda>z. z \<noteq> y) (filter P xs)) \<Longrightarrow>
   length (takeWhile (\<lambda>z. z \<noteq> x) xs) < length (takeWhile (\<lambda>z. z \<noteq> y) xs)"
  by (induction xs) (auto split: if_splits)

subsection \<open>The cleaned usernames\<close>

lemma set_uniqueUsers: "set (uniqueUsers users) = {trim u |u. u \<in> set users \<and> trim u \<noteq> []}"
  by (auto simp: uniqueUsers_def set_new_Set)

lemma distinct_uniqueUsers: "distinct (uniqueUsers users)"
  by (simp add: uniqueUsers_def distinct_new_Set)

lemma length_uniqueUsers: "length (uniqueUsers users) = card {trim u |u. u \<in> set users \<and> trim u \<noteq> []}"
  using distinct_card [OF distinct_uniqueUsers, of users] by (simp add: set_uniqueUsers)

lemma uniqueUsers_nonempty: "name \<in> set (uniqueUsers users) \<Longrightarrow> name \<noteq> []"
  by (auto simp: set_uniqueUsers)

lemma uniqueUsers_first_occurrence:
  assumes "i < j" and "j < length (uniqueUsers users)"
  shows "length (takeWhile (\<lambda>y. y \<noteq> uniqueUsers users ! i) (map trim users))
           < length (takeWhile (\<lambda>y. y \<noteq> uniqueUsers users ! j) (map trim users))"
proof -
  from assms have i: "i < length (uniqueUsers users)" by simp
  have "uniqueUsers users ! i \<noteq> []" "uniqueUsers users ! j \<noteq> []"
    using uniqueUsers_nonempty nth_mem i assms(2) by blast+
  moreover have "length (takeWhile (\<lambda>y. y \<noteq> uniqueUsers users ! i) (filter (\<lambda>u. u \<noteq> []) (map trim users)))
           < length (takeWhile (\<lambda>y. y \<noteq> uniqueUsers users ! j) (filter (\<lambda>u. u \<noteq> []) (map trim users)))"
    using new_Set_first_occurrence [of i j "filter (\<lambda>u. u \<noteq> []) (map trim users)"] assms
    by (simp add: uniqueUsers_def)
  ultimately show ?thesis
    by (rule firstpos_filter [where P = "\<lambda>u. u \<noteq> []"])
qed

lemma uniqueUsers_blank: "\<forall>u\<in>set users. trim u = [] \<Longrightarrow> uniqueUsers users = []"
proof -
  assume "\<forall>u\<in>set users. trim u = []"
  then have "filter (\<lambda>u. u \<noteq> []) (map trim users) = []"
    by (simp add: filter_empty_conv)
  then show ?thesis by (simp add: uniqueUsers_def new_Set_def)
qed

subsection \<open>Batches\<close>

lemma chunksFrom_Nil: "chunksFrom i [] = []"
  by (subst chunksFrom.simps) simp

lemma concat_chunksFrom: "concat (chunksFrom i xs) = drop i xs"
proof (induction i xs rule: chunksFrom.induct)
  case (1 i xs)
  show ?case
  proof (cases "i < length xs")
    case True
    have "take 100 (drop i xs) @ drop (i + 100) xs = drop i xs"
      by (metis append_take_drop_id drop_drop add.commute)
    with 1 True show ?thesis
      by (subst chunksFrom.simps) simp
  next
    case False
    then show ?thesis by (subst chunksFrom.simps) simp
  qed
qed

lemma chunksFrom_bounds: "c \<in> set (chunksFrom i xs) \<Longrightarrow> c \<noteq> [] \<and> length c \<le> 100"
proof (induction i xs rule: chunksFrom.induct)
  case (1 i xs)
  show ?case
  proof (cases "i < length xs")
    case True
    with 1 show ?thesis
      by (subst (asm) (2) chunksFrom.simps) auto
  next
    case False
    with 1 show ?thesis by (subst (asm) (2) chunksFrom.simps) simp
  qed
qed

lemma chunksFrom_250:
  "length xs = 250 \<Longrightarrow> map length (chunksFrom 0 xs) = [100, 100, 50]"
  by (simp add: chunksFrom.simps [of 0] chunksFrom.simps [of 100] chunksFrom.simps [of 200]
      chunksFrom.simps [of 300])

lemma chunksFrom_nth:
  "j < length (chunksFrom i xs) \<Longrightarrow> chunksFrom i xs ! j = take 100 (drop (i + 100 * j) xs)"
proof (induction i xs arbitrary: j rule: chunksFrom.induct)
  case (1 i xs)
  show ?case
  proof (cases "i < length xs")
    case True
    then have unf: "chunksFrom i xs = take 100 (drop i xs) # chunksFrom (i + 100) xs"
      by (subst chunksFrom.simps) simp
    show ?thesis
    proof (cases j)
      case 0
      then show ?thesis by (simp add: unf)
    next
      case (Suc j')
      with "1.prems" unf have "j' < length (chunksFrom (i + 100) xs)" by simp
      from "1.IH" [OF True this] Suc show ?thesis
        by (simp add: unf add.assoc)
    qed
  next
    case False
    with "1.prems" show ?thesis by (subst (asm) chunksFrom.simps) simp
  qed
qed

lemma chunk_member:
  assumes "j < length (chunksFrom 0 xs)" and "u \<in> set (chunksFrom 0 xs ! j)"
  shows "\<exists>r < 100. 100 * j + r < length xs \<and> u = xs ! (100 * j + r)"
proof -
  from assms have "u \<in> set (take 100 (drop (100 * j) xs))"
    by (simp add: chunksFrom_nth)
  then obtain r where r: "r < length (take 100 (drop (100 * j) xs))"
      "u = take 100 (drop (100 * j) xs) ! r"
    by (auto simp: in_set_conv_nth)
  then have "r < 100" "100 * j + r < length xs" by auto
  moreover from r this have "u = xs ! (100 * j + r)" by simp
  ultimately show ?thesis by blast
qed

lemma chunks_disjoint_fold:
  assumes "distinct (map toLowerCase xs)"
    and "j < length (chunksFrom 0 xs)" and "k < length (chunksFrom 0 xs)" and "j \<noteq> k"
    and "u \<in> set (chunksFrom 0 xs ! k)" and "v \<in> set (chunksFrom 0 xs ! j)"
  shows "toLowerCase u \<noteq> toLowerCase v"
proof -
  from chunk_member [OF assms(3,5)] obtain r where
    r: "r < 100" "100 * k + r < length xs" "u = xs ! (100 * k + r)" by blast
  from chunk_member [OF assms(2,6)] obtain s where
    s: "s < 100" "100 * j + s < length xs" "v = xs ! (100 * j + s)" by blast
  from r(1) s(1) assms(4) have "100 * k + r \<noteq> 100 * j + s" by arith
  moreover have "map toLowerCase xs ! (100 * k + r) = map toLowerCase xs ! (100 * j + s)
      \<longleftrightarrow> 100 * k + r = 100 * j + s"
    using assms(1) r(2) s(2) by (intro nth_eq_iff_index_eq) simp_all
  ultimately show ?thesis
    using r s by simp
qed

subsection \<open>The resolver's loop and mapping\<close>

lemma storeAll_Nil [simp]: "storeAll m [] = m"
  by (simp add: storeAll_def)

lemma storeAll_Cons [simp]:
  "storeAll m (e # es) = storeAll (prop_set m (toLowerCase (fst e)) (snd e)) es"
  by (simp add: storeAll_def)

lemma storeUsers_stored: "storeUsers m users = storeAll m (stored users)"
  by (induction users arbitrary: m) (auto split: option.splits)

lemma stored_named [simp]:
  "stored (map (\<lambda>x. (Some (f x), g x)) xs) = map (\<lambda>x. (f x, g x)) xs"
  by (induction xs) auto

lemma stored_all_named:
  "list_all (\<lambda>e. fst e \<noteq> None) users \<Longrightarrow> map (\<lambda>e. (Some (fst e), snd e)) (stored users) = users"
  by (induction users) auto

lemma storeAll_append: "storeAll m (a @ b) = storeAll (storeAll m a) b"
  by (induction a arbitrary: m) auto

lemma resolveChunks_eq:
  "resolveChunks up chunks (m, calls) =
     (storeAll m (concat (map (answered up) chunks)), calls @ map UsersCall chunks)"
  by (induction chunks arbitrary: m calls)
     (auto simp: answered_def storeAll_append storeUsers_stored split: option.splits)

lemma getUserIds_eq:
  "getUserIds up names =
     (storeAll [] (concat (map (answered up) (chunksFrom 0 names))),
      map UsersCall (chunksFrom 0 names))"
  by (cases names) (simp_all add: getUserIds_def resolveChunks_eq chunksFrom_Nil)

lemma map_of_prop_set:
  "map_of (prop_set m k v) k' =
     (if k = ''__proto__'' then map_of m k' else if k' = k then Some v else map_of m k')"
  by (simp add: prop_set_def update_conv')

lemma set_update_subset: "set (AList.update k v m) \<subseteq> insert (k, v) (set m)"
  by (induction m) auto

lemma set_prop_set: "set (prop_set m k v) \<subseteq> insert (k, v) (set m)"
  using set_update_subset [of k v m] by (auto simp: prop_set_def)

lemma map_of_storeAll_other:
  "k \<notin> toLowerCase ` fst ` set es \<Longrightarrow> map_of (storeAll m es) k = map_of m k"
  by (induction es arbitrary: m) (auto simp: map_of_prop_set)

lemma map_of_storeAll_proto:
  "map_of (storeAll m es) ''__proto__'' = map_of m ''__proto__''"
  by (induction es arbitrary: m) (auto simp: map_of_prop_set)

lemma map_of_storeAll:
  "map_of (storeAll m es) key =
     (if key = ''__proto__'' then map_of m key
      else case map_of (rev (keyed es)) key of Some i \<Rightarrow> Some i | None \<Rightarrow> map_of m key)"
proof (induction es arbitrary: m)
  case Nil
  show ?case by (simp add: keyed_def)
next
  case (Cons e es)
  show ?case
    by (simp add: Cons keyed_def map_of_prop_set map_add_def split: option.splits)
qed

lemma map_of_storeAll_agree:
  "\<exists>n. (n, i) \<in> set es \<and> toLowerCase n = k \<Longrightarrow> k \<noteq> ''__proto__'' \<Longrightarrow>
   \<forall>e \<in> set es. toLowerCase (fst e) = k \<longrightarrow> snd e = i \<Longrightarrow>
   map_of (storeAll m es) k = Some i"
proof (induction es arbitrary: m)
  case Nil
  then show ?case by simp
next
  case (Cons e es)
  show ?case
  proof (cases "\<exists>n. (n, i) \<in> set es \<and> toLowerCase n = k")
    case True
    with Cons show ?thesis by simp
  next
    case False
    with Cons.prems have e: "toLowerCase (fst e) = k" "snd e = i"
      by auto
    have "k \<notin> toLowerCase ` fst ` set es"
    proof
      assume "k \<in> toLowerCase ` fst ` set es"
      then obtain n' i' where e': "(n', i') \<in> set es" "toLowerCase n' = k" by auto
      with Cons.prems(3) have "i' = i" by auto
      with e' False show False by blast
    qed
    then have "map_of (storeAll (prop_set m k i) es) k = map_of (prop_set m k i) k"
      by (rule map_of_storeAll_other)
    with e Cons.prems(2) show ?thesis
      by (simp add: map_of_prop_set)
  qed
qed

lemma set_storeAll:
  "set (storeAll m es) \<subseteq> set m \<union> (\<lambda>e. (toLowerCase (fst e), snd e)) ` set es"
proof (induction es arbitrary: m)
  case Nil
  show ?case by simp
next
  case (Cons e es)
  from Cons [of "prop_set m (toLowerCase (fst e)) (snd e)"]
    set_prop_set [of m "toLowerCase (fst e)" "snd e"]
  show ?case by auto
qed

lemma distinct_storeAll:
  "distinct (map fst m) \<Longrightarrow> distinct (map fst (storeAll m es))"
  by (induction es arbitrary: m) (auto simp: prop_set_def distinct_update)

lemma getUserIds_keys_folded:
  "k \<in> fst ` set (fst (getUserIds up names)) \<Longrightarrow> toLowerCase k = k"
  using set_storeAll [of "[]" "concat (map (answered up) (chunksFrom 0 names))"]
  by (auto simp: getUserIds_eq toLowerCase_idem)

lemma getUserIds_absent:
  "k \<notin> toLowerCase ` fst ` (\<Union>c \<in> set (chunksFrom 0 names). set (answered up c)) \<Longrightarrow>
   map_of (fst (getUserIds up names)) k = None"
  by (simp add: getUserIds_eq map_of_storeAll_other)

lemma getUserIds_resolved:
  assumes "c \<in> set (chunksFrom 0 names)" and "e \<in> set (answered up c)"
    and "toLowerCase (fst e) \<noteq> ''__proto__''"
    and "\<forall>c' \<in> set (chunksFrom 0 names). \<forall>e' \<in> set (answered up c').
           toLowerCase (fst e') = toLowerCase (fst e) \<longrightarrow> snd e' = snd e"
  shows "map_of (fst (getUserIds up names)) (toLowerCase (fst e)) = Some (snd e)"
proof -
  let ?es = "concat (map (answered up) (chunksFrom 0 names))"
  from assms(1,2) have "(fst e, snd e) \<in> set ?es" by auto
  then have "\<exists>n. (n, snd e) \<in> set ?es \<and> toLowerCase n = toLowerCase (fst e)" by blast
  moreover from assms(4) have "\<forall>e' \<in> set ?es. toLowerCase (fst e') = toLowerCase (fst e) \<longrightarrow> snd e' = snd e"
    by auto
  ultimately have "map_of (storeAll [] ?es) (toLowerCase (fst e)) = Some (snd e)"
    using assms(3) by (intro map_of_storeAll_agree)
  then show ?thesis by (simp add: getUserIds_eq)
qed

lemma prop_get_Num: "prop_get m k = Num n \<Longrightarrow> map_of m k = Some n"
  by (auto simp: prop_get_def split: option.splits if_splits)

subsection \<open>The aggregation loop and its lookups\<close>

lemma gather_eq:
  "gather up cookie um pm rm names (results, calls) =
     (results @ map (\<lambda>n. fst (statusOf up cookie um pm rm n)) names,
      calls @ concat (map (\<lambda>n. snd (statusOf up cookie um pm rm n)) names))"
  by (induction names arbitrary: results calls) (auto simp: case_prod_beta)

lemma api_status_eq:
  "users \<noteq> [] \<Longrightarrow>
   api_status up cookie (Some users) =
     (Status200 (map (recordOf up cookie users) (uniqueUsers users)),
      snd (getUserIds up (uniqueUsers users))
      @ snd (fetchPresence up (getHeaders cookie) (Object_values (userMapOf up users)))
      @ concat (map (callsOf up cookie users) (uniqueUsers users)))"
  by (simp add: api_status_def case_prod_beta gather_eq Let_def
      userMapOf_def presencesOf_def recordOf_def [abs_def] callsOf_def [abs_def])

lemma results_nth:
  assumes "users \<noteq> []" and "fst (api_status up cookie (Some users)) = Status200 results"
    and "i < length (uniqueUsers users)"
  shows "results ! i = recordOf up cookie users (uniqueUsers users ! i)"
    and "length results = length (uniqueUsers users)"
  using assms by (auto simp: api_status_eq)

lemma set_Object_entries: "set (Object_entries obj) = set obj"
  by (auto simp: Object_entries_def)

lemma fold_reverse_Some:
  "fold (\<lambda>entry acc. acc(snd entry \<mapsto> fst entry)) es acc n = Some k \<Longrightarrow>
   acc n = Some k \<or> (k, n) \<in> set es"
  by (induction es arbitrary: acc) (fastforce split: if_splits)+

lemma fold_reverse_dom:
  "(k, n) \<in> set es \<or> acc n \<noteq> None \<Longrightarrow>
   fold (\<lambda>entry acc. acc(snd entry \<mapsto> fst entry)) es acc n \<noteq> None"
  by (induction es arbitrary: acc) (fastforce split: if_splits)+

lemma mkUserIdToUsernameMap_Some:
  "mkUserIdToUsernameMap um n = Some k \<Longrightarrow> (k, n) \<in> set um"
  using fold_reverse_Some [of "Object_entries um" Map.empty n k]
  by (simp add: mkUserIdToUsernameMap_def set_Object_entries)

lemma mkUserIdToUsernameMap_dom:
  "(k, n) \<in> set um \<Longrightarrow> \<exists>k'. mkUserIdToUsernameMap um n = Some k'"
  using fold_reverse_dom [of k n "Object_entries um" Map.empty]
  by (auto simp: mkUserIdToUsernameMap_def set_Object_entries)

lemma fold_presence_None:
  "n \<notin> userId ` set ps \<Longrightarrow> fold (\<lambda>p m. m(userId p \<mapsto> p)) ps m n = m n"
  by (induction ps arbitrary: m) auto

lemma fold_presence_Some:
  "fold (\<lambda>p m. m(userId p \<mapsto> p)) ps m n = Some p \<Longrightarrow>
   m n = Some p \<or> (p \<in> set ps \<and> userId p = n)"
  by (induction ps arbitrary: m) (fastforce split: if_splits)+

lemma mkPresenceMap_None: "n \<notin> userId ` set ps \<Longrightarrow> mkPresenceMap ps n = None"
  by (simp add: mkPresenceMap_def fold_presence_None)

lemma mkPresenceMap_Some: "mkPresenceMap ps n = Some p \<Longrightarrow> p \<in> set ps \<and> userId p = n"
  using fold_presence_Some [of ps Map.empty n p] by (simp add: mkPresenceMap_def)

lemma presencesOf_cases:
  "presencesOf up cookie users =
     (if Object_values (userMapOf up users) = [] then []
      else case presence_users up (getHeaders cookie) (Object_values (userMapOf up users)) of
             Some ps \<Rightarrow> ps | None \<Rightarrow> [])"
  by (simp add: presencesOf_def fetchPresence_def)

lemma recordOf_no_presence:
  assumes "prop_get (userMapOf up users) (toLowerCase name) = Num n" and "n \<noteq> 0"
    and "mkPresenceMap (presencesOf up cookie users) n = None"
  shows "\<exists>shown. recordOf up cookie users name
           = StatusResult shown (Num n) ''Offline'' None None ''Offline'' ''Offline''"
  using assms by (simp add: recordOf_def statusOf_def byId_def Let_def)

lemma username_statusOf:
  "\<not> falsy (prop_get um (toLowerCase name)) \<Longrightarrow>
   username (fst (statusOf up cookie um pm rm name)) =
     (case byId rm (prop_get um (toLowerCase name)) of
        Some k \<Rightarrow> if k = [] then name else k | None \<Rightarrow> name)"
  by (simp add: statusOf_def case_prod_beta Let_def split: option.splits)

lemma userIdOf_statusOf:
  "userIdOf (fst (statusOf up cookie um pm rm name)) =
     (if falsy (prop_get um (toLowerCase name)) then Undefined
      else prop_get um (toLowerCase name))"
  by (simp add: statusOf_def case_prod_beta Let_def split: option.splits)

lemma chunks250:
  "chunksFrom 0 (sampleNames 250) =
     [take 100 (sampleNames 250), take 100 (drop 100 (sampleNames 250)), drop 200 (sampleNames 250)]"
  by (simp add: chunksFrom.simps [of 0] chunksFrom.simps [of 100] chunksFrom.simps [of 200]
      chunksFrom.simps [of 300] sampleNames_def letters_def)

subsection \<open>The Place Info Resolver\<close>

text \<open>
  C7. \<open>getGameInfo\<close> returns \<open>"Unknown Place"\<close> without a network call when the
  identifier is absent or falsy (\<open>null\<close>, \<open>undefined\<close>, 0); and when the one call it
  makes fails or answers an empty array it returns the same string, so the value does
  not tell a missing place from a failed lookup.
\<close>

theorem getGameInfo_sentinel:
  "(absent ident \<longrightarrow> getGameInfo up ident cookie = (''Unknown Place'', []))
   \<and> (ident = Some i \<and> i \<noteq> 0
        \<and> (place_details up (getHeaders cookie) i = None
             \<or> place_details up (getHeaders cookie) i = Some [])
      \<longrightarrow> getGameInfo up ident cookie = (''Unknown Place'', [PlaceCall (getHeaders cookie) i]))"
  by (cases ident) (auto simp: getGameInfo_def)

text \<open>
  The three kinds of identifier with every request failing, under a session cookie, and
  an empty answer without one.
\<close>

theorem getGameInfo_sentinel_witness:
  "getGameInfo unreachable None (Some ''secret'') = (''Unknown Place'', [])
   \<and> getGameInfo unreachable (Some 0) (Some ''secret'') = (''Unknown Place'', [])
   \<and> getGameInfo unreachable (Some 77) (Some ''secret'')
       = (''Unknown Place'', [PlaceCall [(''Cookie'', ''.ROBLOSECURITY=secret'')] 77])
   \<and> getGameInfo (roblox [] [] []) (Some 77) None = (''Unknown Place'', [PlaceCall [] 77])"
  using
    getGameInfo_sentinel [where ident = None and up = unreachable and cookie = "Some ''secret''"]
    getGameInfo_sentinel [where ident = "Some 0" and up = unreachable and cookie = "Some ''secret''"]
    getGameInfo_sentinel [where ident = "Some 77" and i = 77 and up = unreachable
      and cookie = "Some ''secret''"]
    getGameInfo_sentinel [where ident = "Some 77" and i = 77 and up = "roblox [] [] []"
      and cookie = None]
  by (simp add: unreachable_def roblox_def getHeaders_def)

subsection \<open>The Username Resolver\<close>

text \<open>
  C3. \<open>getUserIds\<close> cuts its input into consecutive batches of at most 100
  usernames (for 250 usernames: three batches of 100, 100 and 50) and makes exactly one
  lookup call per batch, in order, whatever fails. The entries stored for a batch are
  none when its request throws, and all entries of its answer when each has a name. The
  resulting mapping holds, for every lower-cased name other than \<open>__proto__\<close> among the
  entries stored for all batches, the ID of the last stored entry with that lower-cased
  name, and no other key. So when the request of batch \<open>k\<close> throws, a username of batch
  \<open>k\<close> is absent from the mapping unless an entry stored for another batch has the same
  lower-case name; that never happens when the usernames are distinct up to letter
  case and the entries stored for a batch name usernames of that batch only. And every
  entry stored for a batch is in the mapping under its lower-cased name, unless that is
  \<open>__proto__\<close>, with its own ID when all stored entries of that lower-cased name agree
  on the ID.
\<close>

theorem getUserIds_batches:
  "concat (chunksFrom 0 usernames) = usernames
   \<and> (\<forall>c \<in> set (chunksFrom 0 usernames). c \<noteq> [] \<and> length c \<le> 100)
   \<and> (length usernames = 250 \<longrightarrow> map length (chunksFrom 0 usernames) = [100, 100, 50])
   \<and> snd (getUserIds up usernames) = map UsersCall (chunksFrom 0 usernames)
   \<and> (\<forall>c. usernames_users up c = None \<longrightarrow> answered up c = [])
   \<and> (\<forall>c users. usernames_users up c = Some users \<and> list_all (\<lambda>e. fst e \<noteq> None) users
         \<longrightarrow> map (\<lambda>e. (Some (fst e), snd e)) (answered up c) = users)
   \<and> (\<forall>key. map_of (fst (getUserIds up usernames)) key =
         (if key = ''__proto__'' then None
          else map_of (rev (keyed (concat (map (answered up) (chunksFrom 0 usernames))))) key))
   \<and> (\<forall>k < length (chunksFrom 0 usernames).
         usernames_users up (chunksFrom 0 usernames ! k) = None \<longrightarrow>
           (\<forall>u \<in> set (chunksFrom 0 usernames ! k).
              (\<forall>j < length (chunksFrom 0 usernames). j \<noteq> k \<longrightarrow>
                 toLowerCase u
                   \<notin> toLowerCase ` fst ` set (answered up (chunksFrom 0 usernames ! j)))
              \<longrightarrow> map_of (fst (getUserIds up usernames)) (toLowerCase u) = None)
           \<and> (distinct (map toLowerCase usernames)
                \<and> (\<forall>c \<in> set (chunksFrom 0 usernames). \<forall>e \<in> set (answered up c).
                      toLowerCase (fst e) \<in> toLowerCase ` set c)
              \<longrightarrow> (\<forall>u \<in> set (chunksFrom 0 usernames ! k).
                    map_of (fst (getUserIds up usernames)) (toLowerCase u) = None)))
   \<and> (\<forall>j < length (chunksFrom 0 usernames).
         \<forall>e \<in> set (answered up (chunksFrom 0 usernames ! j)).
           toLowerCase (fst e) \<noteq> ''__proto__'' \<longrightarrow>
             map_of (fst (getUserIds up usernames)) (toLowerCase (fst e)) \<noteq> None
             \<and> ((\<forall>c' \<in> set (chunksFrom 0 usernames). \<forall>e' \<in> set (answered up c').
                    toLowerCase (fst e') = toLowerCase (fst e) \<longrightarrow> snd e' = snd e)
                 \<longrightarrow> map_of (fst (getUserIds up usernames)) (toLowerCase (fst e))
                       = Some (snd e)))"
proof -
  let ?cs = "chunksFrom 0 usernames"
  let ?um = "fst (getUserIds up usernames)"
  have absent_if: "map_of ?um (toLowerCase u) = None"
    if k: "usernames_users up (?cs ! k) = None"
      and others: "\<forall>j < length ?cs. j \<noteq> k \<longrightarrow>
        toLowerCase u \<notin> toLowerCase ` fst ` set (answered up (?cs ! j))"
    for k u
  proof (rule getUserIds_absent, rule notI)
    assume "toLowerCase u \<in> toLowerCase ` fst ` (\<Union>c \<in> set ?cs. set (answered up c))"
    then obtain c e where ce: "c \<in> set ?cs" "e \<in> set (answered up c)"
        "toLowerCase u = toLowerCase (fst e)" by auto
    from ce(1) obtain j where j: "j < length ?cs" "c = ?cs ! j"
      by (auto simp: in_set_conv_nth)
    from k have "answered up (?cs ! k) = []"
      by (simp add: answered_def)
    with ce(2) j have "j \<noteq> k" by auto
    with others j ce show False by auto
  qed
  have 1: "concat ?cs = usernames"
    by (simp add: concat_chunksFrom)
  have 2: "\<forall>c \<in> set ?cs. c \<noteq> [] \<and> length c \<le> 100"
    using chunksFrom_bounds by blast
  have 3: "length usernames = 250 \<longrightarrow> map length ?cs = [100, 100, 50]"
    by (simp add: chunksFrom_250)
  have 4: "snd (getUserIds up usernames) = map UsersCall ?cs"
    by (simp add: getUserIds_eq)
  have 5: "\<forall>c. usernames_users up c = None \<longrightarrow> answered up c = []"
    by (simp add: answered_def)
  have 6: "\<forall>c users. usernames_users up c = Some users \<and> list_all (\<lambda>e. fst e \<noteq> None) users
         \<longrightarrow> map (\<lambda>e. (Some (fst e), snd e)) (answered up c) = users"
    by (simp add: answered_def stored_all_named)
  have 7: "\<forall>key. map_of ?um key =
         (if key = ''__proto__'' then None
          else map_of (rev (keyed (concat (map (answered up) ?cs)))) key)"
    by (simp add: getUserIds_eq map_of_storeAll split: option.splits)
  have 8: "\<forall>k < length ?cs. usernames_users up (?cs ! k) = None \<longrightarrow>
           (\<forall>u \<in> set (?cs ! k).
              (\<forall>j < length ?cs. j \<noteq> k \<longrightarrow>
                 toLowerCase u \<notin> toLowerCase ` fst ` set (answered up (?cs ! j)))
              \<longrightarrow> map_of ?um (toLowerCase u) = None)
           \<and> (distinct (map toLowerCase usernames)
                \<and> (\<forall>c \<in> set ?cs. \<forall>e \<in> set (answered up c).
                      toLowerCase (fst e) \<in> toLowerCase ` set c)
              \<longrightarrow> (\<forall>u \<in> set (?cs ! k). map_of ?um (toLowerCase u) = None))"
  proof (intro allI impI conjI ballI)
    fix k u
    assume "usernames_users up (?cs ! k) = None"
      and "\<forall>j < length ?cs. j \<noteq> k \<longrightarrow>
        toLowerCase u \<notin> toLowerCase ` fst ` set (answered up (?cs ! j))"
    then show "map_of ?um (toLowerCase u) = None"
      by (rule absent_if)
  next
    fix k u
    assume k: "k < length ?cs" and fail: "usernames_users up (?cs ! k) = None"
      and dc: "distinct (map toLowerCase usernames)
        \<and> (\<forall>c \<in> set ?cs. \<forall>e \<in> set (answered up c).
              toLowerCase (fst e) \<in> toLowerCase ` set c)"
      and u: "u \<in> set (?cs ! k)"
    from dc have d: "distinct (map toLowerCase usernames)"
      and contract: "\<forall>c \<in> set ?cs. \<forall>e \<in> set (answered up c).
              toLowerCase (fst e) \<in> toLowerCase ` set c"
      by blast+
    show "map_of ?um (toLowerCase u) = None"
    proof (rule absent_if [OF fail], intro allI impI, rule notI)
      fix j
      assume j: "j < length ?cs" "j \<noteq> k"
        and "toLowerCase u \<in> toLowerCase ` fst ` set (answered up (?cs ! j))"
      then obtain e where e: "e \<in> set (answered up (?cs ! j))"
          "toLowerCase u = toLowerCase (fst e)"
        by auto
      from j(1) have "?cs ! j \<in> set ?cs" by simp
      with contract e(1) have "toLowerCase (fst e) \<in> toLowerCase ` set (?cs ! j)" by blast
      then obtain v where v: "v \<in> set (?cs ! j)" "toLowerCase (fst e) = toLowerCase v" by auto
      from chunks_disjoint_fold [OF d j(1) k j(2) u v(1)] e(2) v(2)
      show False by simp
    qed
  qed
  have 9: "\<forall>j < length ?cs. \<forall>e \<in> set (answered up (?cs ! j)).
           toLowerCase (fst e) \<noteq> ''__proto__'' \<longrightarrow>
             map_of ?um (toLowerCase (fst e)) \<noteq> None
             \<and> ((\<forall>c' \<in> set ?cs. \<forall>e' \<in> set (answered up c').
                    toLowerCase (fst e') = toLowerCase (fst e) \<longrightarrow> snd e' = snd e)
                 \<longrightarrow> map_of ?um (toLowerCase (fst e)) = Some (snd e))"
  proof (intro allI impI ballI conjI)
    fix j e
    assume j: "j < length ?cs" and e: "e \<in> set (answered up (?cs ! j))"
      and p: "toLowerCase (fst e) \<noteq> ''__proto__''"
    from j have mem: "?cs ! j \<in> set ?cs" by simp
    with e have "toLowerCase (fst e) \<in> fst ` set (rev (keyed (concat (map (answered up) ?cs))))"
      by (force simp: keyed_def)
    then have "map_of (rev (keyed (concat (map (answered up) ?cs)))) (toLowerCase (fst e)) \<noteq> None"
      by (simp only: map_of_eq_None_iff not_not)
    with 7 p show "map_of ?um (toLowerCase (fst e)) \<noteq> None" by simp
    assume agree: "\<forall>c' \<in> set ?cs. \<forall>e' \<in> set (answered up c').
                    toLowerCase (fst e') = toLowerCase (fst e) \<longrightarrow> snd e' = snd e"
    from getUserIds_resolved [OF mem e p agree]
    show "map_of ?um (toLowerCase (fst e)) = Some (snd e)" .
  qed
  from 1 2 3 4 5 6 7 8 9 show ?thesis
    by (intro conjI)
qed

text \<open>
  An answer that breaks off: the entry before the one without a name is stored, the
  entry after it is not, and the batch is asked once.
\<close>

lemma broken_off_answer:
  "getUserIds broken_off [''Alice'', ''Bob''] = ([(''alice'', 7)], [UsersCall [''Alice'', ''Bob'']])"
  by (simp add: getUserIds_def chunksFrom.simps broken_off_def prop_set_def string_eval)

text \<open>
  250 usernames with the second batch (the one holding \<open>gg\<close>) failing: three calls of
  sizes 100, 100 and 50; \<open>gg\<close> and \<open>mc\<close> of the second batch are absent, \<open>aa\<close> of the
  first batch and \<open>pj\<close> of the third are resolved.
\<close>

theorem getUserIds_batches_witness:
  "length (sampleNames 250) = 250
   \<and> map length (chunksFrom 0 (sampleNames 250)) = [100, 100, 50]
   \<and> usernames_users (outage ''gg'' echo) (chunksFrom 0 (sampleNames 250) ! 1) = None
   \<and> ''gg'' \<in> set (chunksFrom 0 (sampleNames 250) ! 1)
   \<and> snd (getUserIds (outage ''gg'' echo) (sampleNames 250))
       = map UsersCall (chunksFrom 0 (sampleNames 250))
   \<and> map_of (fst (getUserIds (outage ''gg'' echo) (sampleNames 250))) ''gg'' = None
   \<and> map_of (fst (getUserIds (outage ''gg'' echo) (sampleNames 250))) ''aa'' = Some 24929
   \<and> map_of (fst (getUserIds (outage ''gg'' echo) (sampleNames 250))) ''pj'' = Some 28778
   \<and> distinct (map toLowerCase (sampleNames 250))
   \<and> map_of (fst (getUserIds (outage ''gg'' echo) (sampleNames 250))) ''mc'' = None
   \<and> map (\<lambda>e. (Some (fst e), snd e)) (answered (outage ''gg'' echo) [''aa''])
       = [(Some ''aa'', 24929)]"
proof -
  let ?W = "outage ''gg'' echo"
  let ?cs = "chunksFrom 0 (sampleNames 250)"
  define c0 where "c0 = take 100 (sampleNames 250)"
  define c1 where "c1 = take 100 (drop 100 (sampleNames 250))"
  define c2 where "c2 = drop 200 (sampleNames 250)"
  have cs: "?cs = [c0, c1, c2]"
    by (simp only: chunks250 c0_def c1_def c2_def)
  have len: "length (sampleNames 250) = 250"
    by (simp add: sampleNames_def letters_def)
  have k: "1 < length ?cs"
    by (simp add: cs)
  have gg: "''gg'' \<in> set c1"
    by (simp add: c1_def sampleNames_def letters_def)
  then have fail: "usernames_users ?W (?cs ! 1) = None"
    by (simp add: cs outage_def)
  note T = getUserIds_batches [where up = ?W and usernames = "sampleNames 250"]
  have a0: "answered ?W c0 = map (\<lambda>u. (u, codeOf u)) c0"
    by (simp add: c0_def answered_def outage_def echo_def sampleNames_def letters_def)
  have a1: "answered ?W c1 = []"
    using fail by (simp add: cs answered_def)
  have a2: "answered ?W c2 = map (\<lambda>u. (u, codeOf u)) c2"
    by (simp add: c2_def answered_def outage_def echo_def sampleNames_def letters_def)
  have low: "toLowerCase ''gg'' = ''gg''" "toLowerCase ''aa'' = ''aa''" "toLowerCase ''pj'' = ''pj''"
    by (simp_all add: string_eval)
  have lower_case: "map toLowerCase c0 = c0" "map toLowerCase c2 = c2"
    by (simp_all add: c0_def c2_def sampleNames_def letters_def string_eval)
  have keys: "toLowerCase ` fst ` set (answered ?W c0) = set c0"
    "toLowerCase ` fst ` set (answered ?W c2) = set c2"
    using lower_case [THEN arg_cong, of set] by (simp_all add: a0 a2 image_image)
  note T3 = T [THEN conjunct2, THEN conjunct2, THEN conjunct1, rule_format]
  note T4 = T [THEN conjunct2, THEN conjunct2, THEN conjunct2, THEN conjunct1]
  note T8 = T [THEN conjunct2, THEN conjunct2, THEN conjunct2, THEN conjunct2, THEN conjunct2,
      THEN conjunct2, THEN conjunct2, THEN conjunct1, rule_format, OF k fail]
  note T5 = T8 [THEN conjunct1, rule_format]
  note T9 = T [THEN conjunct2, THEN conjunct2, THEN conjunct2, THEN conjunct2, THEN conjunct2,
      THEN conjunct2, THEN conjunct2, THEN conjunct2, rule_format]
  note T7 = T9 [THEN conjunct2, THEN mp]
  have idx: "j = 0 \<or> j = 2" if "j < length ?cs" "j \<noteq> 1" for j
    using that by (simp add: cs) arith
  have nth: "?cs ! 0 = c0" "?cs ! 1 = c1" "?cs ! 2 = c2"
    by (simp_all add: cs)
  have none: "map_of (fst (getUserIds ?W (sampleNames 250))) (toLowerCase ''gg'') = None"
  proof (rule T5)
    show "''gg'' \<in> set (?cs ! 1)"
      using gg by (simp only: nth)
    fix j
    assume j: "j < length ?cs" "j \<noteq> 1"
    have "''gg'' \<notin> set c0" "''gg'' \<notin> set c2"
      by (simp_all add: c0_def c2_def sampleNames_def letters_def)
    then have "toLowerCase ''gg'' \<notin> toLowerCase ` fst ` set (answered ?W (?cs ! 0))"
      "toLowerCase ''gg'' \<notin> toLowerCase ` fst ` set (answered ?W (?cs ! 2))"
      by (simp_all only: nth keys low not_False_eq_True)
    with idx [OF j] show "toLowerCase ''gg'' \<notin> toLowerCase ` fst ` set (answered ?W (?cs ! j))"
      by blast
  qed
  have folded_elem: "toLowerCase v = v" if "v \<in> set c0 \<union> set c2" for v
  proof -
    from that have "v \<in> set (c0 @ c2)" by simp
    moreover have "map toLowerCase (c0 @ c2) = c0 @ c2"
      by (simp add: lower_case)
    ultimately show ?thesis
      by (metis map_eq_conv map_ident id_apply)
  qed
  have agree: "\<forall>c' \<in> set ?cs. \<forall>e' \<in> set (answered ?W c').
        toLowerCase (fst e') = toLowerCase (fst (u, codeOf u)) \<longrightarrow> snd e' = snd (u, codeOf u)"
    if u: "toLowerCase u = u" for u
  proof (intro ballI impI)
    fix c' e'
    assume c': "c' \<in> set ?cs" and e': "e' \<in> set (answered ?W c')"
      and eq: "toLowerCase (fst e') = toLowerCase (fst (u, codeOf u))"
    from c' have "c' = c0 \<or> c' = c1 \<or> c' = c2"
      by (simp add: cs)
    with e' a1 have "e' \<in> set (answered ?W c0) \<or> e' \<in> set (answered ?W c2)"
      by auto
    then obtain v where v: "v \<in> set c0 \<union> set c2" "e' = (v, codeOf v)"
      by (auto simp: a0 a2)
    from folded_elem [OF v(1)] eq u v(2) have "v = u" by simp
    with v(2) show "snd e' = snd (u, codeOf u)" by simp
  qed
  have aa: "map_of (fst (getUserIds ?W (sampleNames 250))) (toLowerCase (fst (''aa'', codeOf ''aa'')))
      = Some (snd (''aa'', codeOf ''aa''))"
  proof (rule T7 [of 0])
    show "0 < length ?cs"
      by (simp add: cs)
    have "''aa'' \<in> set c0"
      by (simp add: c0_def sampleNames_def letters_def)
    then show "(''aa'', codeOf ''aa'') \<in> set (answered ?W (?cs ! 0))"
      by (simp only: nth a0) simp
    show "toLowerCase (fst (''aa'', codeOf ''aa'')) \<noteq> ''__proto__''"
      by (simp add: low)
    show "\<forall>c' \<in> set ?cs. \<forall>e' \<in> set (answered ?W c').
            toLowerCase (fst e') = toLowerCase (fst (''aa'', codeOf ''aa''))
            \<longrightarrow> snd e' = snd (''aa'', codeOf ''aa'')"
      using agree [OF low(2)] by simp
  qed
  have pj: "map_of (fst (getUserIds ?W (sampleNames 250))) (toLowerCase (fst (''pj'', codeOf ''pj'')))
      = Some (snd (''pj'', codeOf ''pj''))"
  proof (rule T7 [of 2])
    show "2 < length ?cs"
      by (simp add: cs)
    have "''pj'' \<in> set c2"
      by (simp add: c2_def sampleNames_def letters_def)
    then show "(''pj'', codeOf ''pj'') \<in> set (answered ?W (?cs ! 2))"
      by (simp only: nth a2) simp
    show "toLowerCase (fst (''pj'', codeOf ''pj'')) \<noteq> ''__proto__''"
      by (simp add: low)
    show "\<forall>c' \<in> set ?cs. \<forall>e' \<in> set (answered ?W c').
            toLowerCase (fst e') = toLowerCase (fst (''pj'', codeOf ''pj''))
            \<longrightarrow> snd e' = snd (''pj'', codeOf ''pj'')"
      using agree [OF low(3)] by simp
  qed
  have codes: "codeOf ''aa'' = 24929" "codeOf ''pj'' = 28778"
    by (simp_all add: codeOf_def)
  have d: "distinct (map toLowerCase (sampleNames 250))"
    by (simp add: sampleNames_def letters_def string_eval)
  have contract: "\<forall>c \<in> set ?cs. \<forall>e \<in> set (answered ?W c).
      toLowerCase (fst e) \<in> toLowerCase ` set c"
    by (auto simp: cs a0 a1 a2)
  have "''mc'' \<in> set c1"
    by (simp add: c1_def sampleNames_def letters_def)
  then have "''mc'' \<in> set (?cs ! 1)"
    by (simp only: nth)
  with T8 [THEN conjunct2, THEN mp, OF conjI [OF d contract]]
  have "map_of (fst (getUserIds ?W (sampleNames 250))) (toLowerCase ''mc'') = None"
    by (rule bspec)
  moreover have "toLowerCase ''mc'' = ''mc''"
    by (simp add: string_eval)
  ultimately have mc: "map_of (fst (getUserIds ?W (sampleNames 250))) ''mc'' = None"
    by simp
  have "usernames_users ?W [''aa''] = Some [(Some ''aa'', 24929)]
      \<and> list_all (\<lambda>e. fst e \<noteq> None) [(Some ''aa'', 24929::nat)]"
    by (simp add: outage_def echo_def codeOf_def)
  with T [THEN conjunct2, THEN conjunct2, THEN conjunct2, THEN conjunct2, THEN conjunct2,
      THEN conjunct1, rule_format]
  have whole: "map (\<lambda>e. (Some (fst e), snd e)) (answered ?W [''aa'']) = [(Some ''aa'', 24929)]"
    by blast
  have "map length ?cs = [100, 100, 50]"
    using len by (rule T3)
  moreover have "''gg'' \<in> set (?cs ! 1)"
    using gg by (simp only: nth)
  moreover note len fail T4 none [unfolded low] aa [unfolded fst_conv snd_conv low codes]
    pj [unfolded fst_conv snd_conv low codes] d mc whole
  ultimately show ?thesis
    by (intro conjI)
qed

text \<open>
  C3 as it is stated fails when usernames differ only in letter case: of 101
  usernames, \<open>Zed\<close> is in the first batch and \<open>zed\<close> alone in the second, whose call
  fails; the first batch's answer stores the key \<open>zed\<close>, so the failed batch's username
  is in the mapping.
\<close>

theorem failed_batch_name_present_counterexample:
  "chunksFrom 0 (''Zed'' # sampleNames 99 @ [''zed'']) ! 1 = [''zed'']
   \<and> usernames_users (outage ''zed'' (roblox [(''Zed'', 5)] [] [])) [''zed''] = None
   \<and> map_of (fst (getUserIds (outage ''zed'' (roblox [(''Zed'', 5)] [] []))
                      (''Zed'' # sampleNames 99 @ [''zed''])))
         (toLowerCase ''zed'') = Some 5"
proof -
  let ?W = "outage ''zed'' (roblox [(''Zed'', 5)] [] [])"
  define c0 where "c0 = ''Zed'' # sampleNames 99"
  have cs: "chunksFrom 0 (''Zed'' # sampleNames 99 @ [''zed'']) = [c0, [''zed'']]"
    by (simp add: chunksFrom.simps [of 0] chunksFrom.simps [of 100] chunksFrom.simps [of 200]
        sampleNames_def letters_def c0_def)
  have "''zed'' \<notin> set c0"
    by (simp add: c0_def sampleNames_def letters_def)
  moreover have "toLowerCase ''Zed'' \<in> set (map toLowerCase c0)"
    by (simp add: c0_def)
  ultimately have a0: "usernames_users ?W c0 = Some [(Some ''Zed'', 5)]"
    by (simp add: outage_def roblox_def)
  have a1: "usernames_users ?W [''zed''] = None"
    by (simp add: outage_def)
  have low: "toLowerCase ''zed'' = ''zed''" "toLowerCase ''Zed'' = ''zed''"
    by (simp_all add: string_eval)
  have "map_of (fst (getUserIds ?W (''Zed'' # sampleNames 99 @ [''zed''])))
         (toLowerCase ''zed'') = Some 5"
    by (simp add: getUserIds_def cs a0 a1 low prop_set_def)
  with cs a1 show ?thesis by simp
qed

subsection \<open>The endpoint: input and output sequence\<close>

text \<open>
  C1. For a non-empty list the endpoint answers 200 with a sequence of records whose
  length is the number of distinct, trimmed, non-empty usernames of the input. The
  records are those built for the elements of \<open>uniqueUsers\<close>, one each and in order;
  \<open>uniqueUsers\<close> holds every such username once, ordered by the position of its first
  occurrence in the (trimmed) input.
\<close>

theorem api_status_one_record_per_username:
  assumes "users \<noteq> []"
  shows "\<exists>results calls.
      api_status up cookie (Some users) = (Status200 results, calls)
    \<and> length results = card {trim u |u. u \<in> set users \<and> trim u \<noteq> []}
    \<and> results = map (recordOf up cookie users) (uniqueUsers users)
    \<and> distinct (uniqueUsers users)
    \<and> set (uniqueUsers users) = {trim u |u. u \<in> set users \<and> trim u \<noteq> []}
    \<and> (\<forall>i j. i < j \<and> j < length (uniqueUsers users) \<longrightarrow>
          length (takeWhile (\<lambda>y. y \<noteq> uniqueUsers users ! i) (map trim users))
            < length (takeWhile (\<lambda>y. y \<noteq> uniqueUsers users ! j) (map trim users)))"
proof (intro exI conjI)
  show "api_status up cookie (Some users) =
      (Status200 (map (recordOf up cookie users) (uniqueUsers users)),
       snd (getUserIds up (uniqueUsers users))
       @ snd (fetchPresence up (getHeaders cookie) (Object_values (userMapOf up users)))
       @ concat (map (callsOf up cookie users) (uniqueUsers users)))"
    using assms by (rule api_status_eq)
  show "length (map (recordOf up cookie users) (uniqueUsers users))
      = card {trim u |u. u \<in> set users \<and> trim u \<noteq> []}"
    by (simp add: length_uniqueUsers)
  show "distinct (uniqueUsers users)"
    by (rule distinct_uniqueUsers)
  show "set (uniqueUsers users) = {trim u |u. u \<in> set users \<and> trim u \<noteq> []}"
    by (rule set_uniqueUsers)
  show "\<forall>i j. i < j \<and> j < length (uniqueUsers users) \<longrightarrow>
          length (takeWhile (\<lambda>y. y \<noteq> uniqueUsers users ! i) (map trim users))
            < length (takeWhile (\<lambda>y. y \<noteq> uniqueUsers users ! j) (map trim users))"
    by (simp add: uniqueUsers_first_occurrence)
qed simp

lemma sample_run:
  "api_status sample None (Some [''  Alice '', ''bob'', ''Alice'', '' '', ''carol'']) =
     (Status200
        [StatusResult ''alice'' (Num 7) ''Offline'' None None ''Offline'' ''Offline'',
         StatusResult ''bob'' (Num 8) ''Offline'' (Some 5) (Some 6) ''Offline'' ''Lobby'',
         ErrorResult ''carol'' ''Pengguna tidak ditemukan di Roblox.''],
      [UsersCall [''Alice'', ''bob'', ''carol''], PresenceCall [] [7, 8]])"
  by (simp add: model_eval string_eval)

theorem api_status_one_record_per_username_witness:
  "card {trim u |u. u \<in> set [''  Alice '', ''bob'', ''Alice'', '' '', ''carol''] \<and> trim u \<noteq> []} = 3
   \<and> fst (api_status sample None (Some [''  Alice '', ''bob'', ''Alice'', '' '', ''carol''])) =
       Status200
        [StatusResult ''alice'' (Num 7) ''Offline'' None None ''Offline'' ''Offline'',
         StatusResult ''bob'' (Num 8) ''Offline'' (Some 5) (Some 6) ''Offline'' ''Lobby'',
         ErrorResult ''carol'' ''Pengguna tidak ditemukan di Roblox.'']"
  using api_status_one_record_per_username
    [where users = "[''  Alice '', ''bob'', ''Alice'', '' '', ''carol'']" and up = sample
      and cookie = None]
  by (auto simp: sample_run)

text \<open>
  C4. An absent or empty list is rejected with status 400 before any upstream call. A
  non-empty list whose usernames are all empty after trimming is not rejected: no
  upstream call is made for it either, and the answer is a 200 with an empty sequence.
\<close>

theorem api_status_empty_input:
  "((body = None \<or> body = Some []) \<longrightarrow>
      api_status up cookie body = (Status400 ''Daftar pengguna kosong.'', []))
   \<and> (users \<noteq> [] \<and> (\<forall>u\<in>set users. trim u = []) \<longrightarrow>
      api_status up cookie (Some users) = (Status200 [], []))"
proof (intro conjI impI)
  assume "body = None \<or> body = Some []"
  then show "api_status up cookie body = (Status400 ''Daftar pengguna kosong.'', [])"
    by (auto simp: api_status_def)
next
  assume a: "users \<noteq> [] \<and> (\<forall>u\<in>set users. trim u = [])"
  then have u: "uniqueUsers users = []" by (simp add: uniqueUsers_blank)
  have "Object_values (userMapOf up users) = []"
    by (simp add: userMapOf_def u getUserIds_def Object_values_def Object_entries_def)
  with a u show "api_status up cookie (Some users) = (Status200 [], [])"
    by (simp add: api_status_eq getUserIds_def fetchPresence_def)
qed

theorem api_status_empty_input_witness:
  "api_status sample None None = (Status400 ''Daftar pengguna kosong.'', [])
   \<and> api_status sample None (Some []) = (Status400 ''Daftar pengguna kosong.'', [])
   \<and> api_status sample None (Some ['' '', [CHR 0x0A]]) = (Status200 [], [])"
  using api_status_empty_input [where body = None and up = sample and cookie = None
      and users = "['' '', [CHR 0x0A]]"]
    api_status_empty_input [where body = "Some []" and up = sample and cookie = None
      and users = "['' '', [CHR 0x0A]]"]
  by (simp add: string_eval)

text \<open>
  C4 as it is stated fails for a list of white-space-only usernames: the answer is a
  success, not a client error.
\<close>

theorem api_status_whitespace_only_counterexample:
  "trim ''   '' = [] \<and> trim [CHR 0x09] = []
   \<and> api_status unreachable None (Some [''   '', [CHR 0x09]]) = (Status200 [], [])"
  by (simp add: string_eval uniqueUsers_def new_Set_def api_status_def getUserIds_def
      Object_values_def Object_entries_def fetchPresence_def)

text \<open>
  C8. Two submitted usernames that differ after trimming, if only in letter case, both
  stay in \<open>uniqueUsers\<close> (the Set compares strings exactly): each is sent in a lookup
  call and each gets an output record of its own. Case is folded for the map keys only:
  every key of the mapping is in lower case, and the two records are joined on the same
  key, so they carry the same user ID.
\<close>

theorem case_variants_kept:
  assumes "users \<noteq> []" and "a \<in> set users" and "b \<in> set users"
    and "trim a \<noteq> []" and "trim a \<noteq> trim b"
    and "toLowerCase (trim a) = toLowerCase (trim b)"
  shows "\<exists>results calls i j.
      api_status up cookie (Some users) = (Status200 results, calls)
      \<and> i \<noteq> j \<and> i < length results \<and> j < length results
      \<and> uniqueUsers users ! i = trim a \<and> uniqueUsers users ! j = trim b
      \<and> results ! i = recordOf up cookie users (trim a)
      \<and> results ! j = recordOf up cookie users (trim b)
      \<and> userIdOf (results ! i) = userIdOf (results ! j)
      \<and> (\<exists>c. UsersCall c \<in> set calls \<and> trim a \<in> set c)
      \<and> (\<exists>c. UsersCall c \<in> set calls \<and> trim b \<in> set c)
      \<and> (\<forall>k \<in> fst ` set (userMapOf up users). toLowerCase k = k)"
proof -
  let ?U = "uniqueUsers users"
  let ?results = "map (recordOf up cookie users) ?U"
  let ?calls = "snd (getUserIds up ?U)
      @ snd (fetchPresence up (getHeaders cookie) (Object_values (userMapOf up users)))
      @ concat (map (callsOf up cookie users) ?U)"
  from assms(4,6) have "trim b \<noteq> []"
    by (metis toLowerCase_Nil_iff)
  with assms(2,3,4) have "trim a \<in> set ?U" "trim b \<in> set ?U"
    by (auto simp: set_uniqueUsers)
  then obtain i j where ij: "i < length ?U" "?U ! i = trim a" "j < length ?U" "?U ! j = trim b"
    by (auto simp: in_set_conv_nth)
  with assms(5) have "i \<noteq> j" by auto
  have same: "userIdOf (recordOf up cookie users (trim a)) = userIdOf (recordOf up cookie users (trim b))"
    by (simp add: recordOf_def userIdOf_statusOf assms(6))
  have called: "\<exists>c. UsersCall c \<in> set ?calls \<and> x \<in> set c" if "x \<in> set ?U" for x
  proof -
    from that have "x \<in> set (concat (chunksFrom 0 ?U))"
      by (simp add: concat_chunksFrom)
    then obtain c where "c \<in> set (chunksFrom 0 ?U)" "x \<in> set c" by auto
    then show ?thesis
      by (auto simp: getUserIds_eq)
  qed
  have keys: "\<forall>k \<in> fst ` set (userMapOf up users). toLowerCase k = k"
    using getUserIds_keys_folded [of _ up ?U] by (simp add: userMapOf_def)
  have "api_status up cookie (Some users) = (Status200 ?results, ?calls)"
    using assms(1) by (rule api_status_eq)
  moreover have "?results ! i = recordOf up cookie users (trim a)"
    "?results ! j = recordOf up cookie users (trim b)"
    using ij by simp_all
  moreover from this same have "userIdOf (?results ! i) = userIdOf (?results ! j)" by simp
  moreover have "i < length ?results" "j < length ?results"
    using ij by simp_all
  ultimately show ?thesis
    using \<open>i \<noteq> j\<close> ij(2,4) called [OF \<open>trim a \<in> set ?U\<close>] called [OF \<open>trim b \<in> set ?U\<close>] keys
    by blast
qed

theorem case_variants_kept_witness:
  "\<exists>results calls.
      api_status sample None (Some [''Bob '', ''carol'', '' BOB'']) = (Status200 results, calls)
      \<and> length results = 3
      \<and> userIdOf (results ! 0) = userIdOf (results ! 2)
      \<and> UsersCall [''Bob'', ''carol'', ''BOB''] \<in> set calls"
proof -
  have t: "trim ''Bob '' = ''Bob''" "trim '' BOB'' = ''BOB''"
    "toLowerCase ''Bob'' = ''bob''" "toLowerCase ''BOB'' = ''bob''"
    by (simp_all add: string_eval)
  have u: "uniqueUsers [''Bob '', ''carol'', '' BOB''] = [''Bob'', ''carol'', ''BOB'']"
    by (simp add: uniqueUsers_def new_Set_def Set_add_def string_eval)
  have run: "api_status sample None (Some [''Bob '', ''carol'', '' BOB'']) =
     (Status200
        [StatusResult ''bob'' (Num 8) ''Offline'' (Some 5) (Some 6) ''Offline'' ''Lobby'',
         ErrorResult ''carol'' ''Pengguna tidak ditemukan di Roblox.'',
         StatusResult ''bob'' (Num 8) ''Offline'' (Some 5) (Some 6) ''Offline'' ''Lobby''],
      [UsersCall [''Bob'', ''carol'', ''BOB''], PresenceCall [] [8]])"
    by (simp add: model_eval string_eval)
  from case_variants_kept [where users = "[''Bob '', ''carol'', '' BOB'']" and a = "''Bob ''"
      and b = "'' BOB''" and up = sample and cookie = None]
  obtain results calls i j where
    r: "api_status sample None (Some [''Bob '', ''carol'', '' BOB'']) = (Status200 results, calls)"
      "i \<noteq> j" "uniqueUsers [''Bob '', ''carol'', '' BOB''] ! i = trim ''Bob ''"
      "uniqueUsers [''Bob '', ''carol'', '' BOB''] ! j = trim '' BOB''"
      "userIdOf (results ! i) = userIdOf (results ! j)"
    by (auto simp: t)
  with run show ?thesis by auto
qed

text \<open>
  C8 as it is stated fails: \<open>Alice\<close> and \<open>alice\<close> are both looked up and both get a
  record.
\<close>

theorem case_variants_kept_counterexample:
  "uniqueUsers [''Alice'', ''alice''] = [''Alice'', ''alice'']
   \<and> api_status sample None (Some [''Alice'', ''alice'']) =
     (Status200
        [StatusResult ''alice'' (Num 7) ''Offline'' None None ''Offline'' ''Offline'',
         StatusResult ''alice'' (Num 7) ''Offline'' None None ''Offline'' ''Offline''],
      [UsersCall [''Alice'', ''alice''], PresenceCall [] [7]])"
  by (simp add: model_eval string_eval)

subsection \<open>The endpoint: one record\<close>

text \<open>
  C6, at the username \<open>constructor\<close> with no account of that name: the username is
  absent from the mapping, but the read \<open>userMap["constructor"]\<close> finds the function
  inherited from \<open>Object.prototype\<close>, which is truthy, so the record pushed is a status
  record (\<open>Offline\<close>) and carries no error marker.
\<close>

theorem constructor_not_reported_missing:
  "uniqueUsers [''constructor''] = [''constructor'']
   \<and> map_of (userMapOf (roblox [] [] []) [''constructor'']) (toLowerCase ''constructor'') = None
   \<and> api_status (roblox [] [] []) None (Some [''constructor'']) =
       (Status200
          [StatusResult ''constructor'' Proto ''Offline'' None None ''Offline'' ''Offline''],
        [UsersCall [''constructor'']])
   \<and> error (StatusResult ''constructor'' Proto ''Offline'' None None ''Offline'' ''Offline'')
       = None
   \<and> status (StatusResult ''constructor'' Proto ''Offline'' None None ''Offline'' ''Offline'')
       = Some ''Offline''"
  by (simp add: model_eval string_eval)

text \<open>
  For every other unresolved username the record is the error record: it holds when the
  lower-cased username is not a property name of \<open>Object.prototype\<close>.
\<close>

lemma unresolved_username_error:
  assumes "users \<noteq> []"
    and "fst (api_status up cookie (Some users)) = Status200 results"
    and "i < length (uniqueUsers users)"
    and "map_of (userMapOf up users) (toLowerCase (uniqueUsers users ! i)) = None"
    and "toLowerCase (uniqueUsers users ! i) \<notin> set Object_prototype_keys"
  shows "results ! i = ErrorResult (uniqueUsers users ! i) ''Pengguna tidak ditemukan di Roblox.''"
  using results_nth(1) [OF assms(1,2,3)] assms(4,5)
  by (simp add: recordOf_def statusOf_def prop_get_def)

text \<open>
  C5. A username resolved to a (non-zero) user ID gets status \<open>"Offline"\<close> and mapName
  \<open>"Offline"\<close> when the presence call fails, or when its answer holds no record of
  that ID.
\<close>

theorem offline_without_presence:
  assumes "users \<noteq> []"
    and "fst (api_status up cookie (Some users)) = Status200 results"
    and "i < length (uniqueUsers users)"
    and "prop_get (userMapOf up users) (toLowerCase (uniqueUsers users ! i)) = Num n"
    and "n \<noteq> 0"
    and "presence_users up (getHeaders cookie) (Object_values (userMapOf up users)) = None
         \<or> (\<exists>ps. presence_users up (getHeaders cookie) (Object_values (userMapOf up users)) = Some ps
                \<and> n \<notin> userId ` set ps)"
  shows "status (results ! i) = Some ''Offline'' \<and> mapName (results ! i) = Some ''Offline''
         \<and> (\<exists>shown. results ! i
               = StatusResult shown (Num n) ''Offline'' None None ''Offline'' ''Offline'')"
proof -
  from assms(6) have "mkPresenceMap (presencesOf up cookie users) n = None"
    by (auto simp: presencesOf_cases mkPresenceMap_None)
  from recordOf_no_presence [OF assms(4,5) this] results_nth(1) [OF assms(1,2,3)]
  show ?thesis by auto
qed

theorem offline_without_presence_witness:
  "fst (api_status (presence_down sample) None (Some [''Alice'', ''Bob''])) =
     Status200
       [StatusResult ''alice'' (Num 7) ''Offline'' None None ''Offline'' ''Offline'',
        StatusResult ''bob'' (Num 8) ''Offline'' None None ''Offline'' ''Offline'']
   \<and> status (StatusResult ''bob'' (Num 8) ''Offline'' None None ''Offline'' ''Offline'')
       = Some ''Offline''
   \<and> fst (api_status sample None (Some [''Alice'', ''Bob''])) =
     Status200
       [StatusResult ''alice'' (Num 7) ''Offline'' None None ''Offline'' ''Offline'',
        StatusResult ''bob'' (Num 8) ''Offline'' (Some 5) (Some 6) ''Offline'' ''Lobby'']
   \<and> mapName (StatusResult ''alice'' (Num 7) ''Offline'' None None ''Offline'' ''Offline'')
       = Some ''Offline''"
proof -
  have a: "fst (api_status (presence_down sample) None (Some [''Alice'', ''Bob''])) =
     Status200
       [StatusResult ''alice'' (Num 7) ''Offline'' None None ''Offline'' ''Offline'',
        StatusResult ''bob'' (Num 8) ''Offline'' None None ''Offline'' ''Offline'']"
    by (simp add: model_eval string_eval)
  have b: "fst (api_status sample None (Some [''Alice'', ''Bob''])) =
     Status200
       [StatusResult ''alice'' (Num 7) ''Offline'' None None ''Offline'' ''Offline'',
        StatusResult ''bob'' (Num 8) ''Offline'' (Some 5) (Some 6) ''Offline'' ''Lobby'']"
    by (simp add: model_eval string_eval)
  have "status ([StatusResult ''alice'' (Num 7) ''Offline'' None None ''Offline'' ''Offline'',
        StatusResult ''bob'' (Num 8) ''Offline'' None None ''Offline'' ''Offline''] ! 1)
      = Some ''Offline''"
    using offline_without_presence [OF _ a, where i = 1 and n = 8]
    by (simp add: model_eval string_eval)
  moreover have "mapName ([StatusResult ''alice'' (Num 7) ''Offline'' None None ''Offline'' ''Offline'',
        StatusResult ''bob'' (Num 8) ''Offline'' (Some 5) (Some 6) ''Offline'' ''Lobby''] ! 0)
      = Some ''Offline''"
    using offline_without_presence [OF _ b, where i = 0 and n = 7]
    by (simp add: model_eval string_eval)
  ultimately show ?thesis using a b by simp
qed

text \<open>
  C10. A presence record whose type is none of 0, 1, 2, 3 leaves status and mapName at
  \<open>"Offline"\<close>, and placeId, universeId and lastLocation of the output record are those
  of the presence record.
\<close>

theorem unknown_presence_type_defaults:
  assumes "users \<noteq> []"
    and "fst (api_status up cookie (Some users)) = Status200 results"
    and "i < length (uniqueUsers users)"
    and "prop_get (userMapOf up users) (toLowerCase (uniqueUsers users ! i)) = Num n"
    and "n \<noteq> 0"
    and "mkPresenceMap (presencesOf up cookie users) n = Some p"
    and "userPresenceType p \<notin> {0, 1, 2, 3}"
  shows "status (results ! i) = Some ''Offline'' \<and> mapName (results ! i) = Some ''Offline''
         \<and> (\<exists>shown. results ! i
               = StatusResult shown (Num n) ''Offline'' (placeId p) (universeId p) ''Offline''
                   (lastLocation p))
         \<and> p \<in> set (presencesOf up cookie users) \<and> userId p = n"
proof -
  from assms(4-7) have "\<exists>shown. recordOf up cookie users (uniqueUsers users ! i)
       = StatusResult shown (Num n) ''Offline'' (placeId p) (universeId p) ''Offline'' (lastLocation p)"
    by (simp add: recordOf_def statusOf_def byId_def Let_def)
  with results_nth(1) [OF assms(1,2,3)] mkPresenceMap_Some [OF assms(6)]
  show ?thesis by auto
qed

theorem unknown_presence_type_defaults_witness:
  "fst (api_status sample None (Some [''Alice'', ''Bob''])) =
     Status200
       [StatusResult ''alice'' (Num 7) ''Offline'' None None ''Offline'' ''Offline'',
        StatusResult ''bob'' (Num 8) ''Offline'' (Some 5) (Some 6) ''Offline'' ''Lobby'']
   \<and> (\<exists>shown. [StatusResult ''alice'' (Num 7) ''Offline'' None None ''Offline'' ''Offline'',
        StatusResult ''bob'' (Num 8) ''Offline'' (Some 5) (Some 6) ''Offline'' ''Lobby''] ! 1
        = StatusResult shown (Num 8) ''Offline'' (Some 5) (Some 6) ''Offline'' ''Lobby'')"
proof -
  have b: "fst (api_status sample None (Some [''Alice'', ''Bob''])) =
     Status200
       [StatusResult ''alice'' (Num 7) ''Offline'' None None ''Offline'' ''Offline'',
        StatusResult ''bob'' (Num 8) ''Offline'' (Some 5) (Some 6) ''Offline'' ''Lobby'']"
    by (simp add: model_eval string_eval)
  show ?thesis
    using unknown_presence_type_defaults [OF _ b, where i = 1 and n = 8
        and p = "\<lparr>userId = 8, userPresenceType = 4, placeId = Some 5, universeId = Some 6,
          lastLocation = ''Lobby''\<rparr>"] b
    by (simp add: model_eval string_eval)
qed

text \<open>
  C2, at a presence record of type 3 with no placeId and universeId 77: the record
  carries mapName \<open>"In Game (placeId hidden)"\<close>, but the place lookup for 77 is made
  all the same (its answer is overwritten).
\<close>

theorem hidden_place_still_looked_up:
  "api_status hidden_place None (Some [''alice'']) =
     (Status200
        [StatusResult ''alice'' (Num 7) ''In Game'' None (Some 77) ''In Game (placeId hidden)'' ''''],
      [UsersCall [''alice''], PresenceCall [] [7], PlaceCall [] 77])"
  by (simp add: model_eval string_eval hidden_place_def)

text \<open>
  What holds of a type 3 record in general: status is \<open>"In Game"\<close>; with a placeId,
  mapName is the name the lookup of universeId-or-placeId answers, when it answers one;
  without a placeId, mapName is \<open>"In Game (placeId hidden)"\<close>, and no lookup is made
  exactly when the universeId is absent too.
\<close>

lemma in_game_record:
  assumes "prop_get (userMapOf up users) (toLowerCase name) = Num n" and "n \<noteq> 0"
    and "mkPresenceMap (presencesOf up cookie users) n = Some p"
    and "userPresenceType p = 3"
  shows "status (recordOf up cookie users name) = Some ''In Game''"
    and "placeId p = Some q \<Longrightarrow> q \<noteq> 0 \<Longrightarrow> js_or (universeId p) (placeId p) = Some g \<Longrightarrow>
         place_details up (getHeaders cookie) g = Some (place # others) \<Longrightarrow> place \<noteq> [] \<Longrightarrow>
         mapName (recordOf up cookie users name) = Some place
         \<and> callsOf up cookie users name = [PlaceCall (getHeaders cookie) g]"
    and "absent (placeId p) \<Longrightarrow>
         mapName (recordOf up cookie users name) = Some ''In Game (placeId hidden)''
         \<and> (callsOf up cookie users name = [] \<longleftrightarrow> absent (universeId p))"
proof -
  show "status (recordOf up cookie users name) = Some ''In Game''"
    using assms by (simp add: recordOf_def statusOf_def byId_def case_prod_beta)
  show "mapName (recordOf up cookie users name) = Some place
         \<and> callsOf up cookie users name = [PlaceCall (getHeaders cookie) g]"
    if "placeId p = Some q" "q \<noteq> 0" "js_or (universeId p) (placeId p) = Some g"
      "place_details up (getHeaders cookie) g = Some (place # others)" "place \<noteq> []"
  proof -
    from that(1-3) have "g \<noteq> 0"
      by (cases "universeId p") (auto simp: js_or_def split: if_splits)
    with assms that show ?thesis
      by (simp add: recordOf_def callsOf_def statusOf_def byId_def getGameInfo_def)
  qed
  show "mapName (recordOf up cookie users name) = Some ''In Game (placeId hidden)''
         \<and> (callsOf up cookie users name = [] \<longleftrightarrow> absent (universeId p))"
    if "absent (placeId p)"
    using assms that
    by (cases "universeId p"; cases "placeId p")
       (auto simp: recordOf_def callsOf_def statusOf_def byId_def getGameInfo_def js_or_def
          case_prod_beta Let_def)
qed

text \<open>
  C9. For a username resolved to a (non-zero) user ID, the username of its record is a
  key of the mapping that holds this ID, in lower case as every key is (or the input
  string, if that key is empty). When only the username's own key holds the ID, what is
  shown is the input username in lower case.
\<close>

theorem shown_username_is_folded_key:
  assumes "users \<noteq> []"
    and "fst (api_status up cookie (Some users)) = Status200 results"
    and "i < length (uniqueUsers users)"
    and "prop_get (userMapOf up users) (toLowerCase (uniqueUsers users ! i)) = Num n"
    and "n \<noteq> 0"
  shows "(\<exists>k. (k, n) \<in> set (userMapOf up users) \<and> toLowerCase k = k
            \<and> username (results ! i) = (if k = [] then uniqueUsers users ! i else k))
         \<and> ((\<forall>k. (k, n) \<in> set (userMapOf up users) \<longrightarrow> k = toLowerCase (uniqueUsers users ! i))
              \<longrightarrow> username (results ! i) = toLowerCase (uniqueUsers users ! i))"
proof -
  let ?name = "uniqueUsers users ! i"
  let ?um = "userMapOf up users"
  from assms(4) have "(toLowerCase ?name, n) \<in> set ?um"
    by (simp add: prop_get_Num map_of_SomeD)
  then obtain k where k: "mkUserIdToUsernameMap ?um n = Some k"
    using mkUserIdToUsernameMap_dom by blast
  then have mem: "(k, n) \<in> set ?um"
    by (rule mkUserIdToUsernameMap_Some)
  then have "k \<in> fst ` set (fst (getUserIds up (uniqueUsers users)))"
    by (force simp: userMapOf_def)
  then have low: "toLowerCase k = k"
    by (rule getUserIds_keys_folded)
  have shown: "username (results ! i) = (if k = [] then ?name else k)"
    using results_nth(1) [OF assms(1,2,3)] assms(4,5) k
    by (simp add: recordOf_def username_statusOf byId_def)
  have "?name \<noteq> []"
    using uniqueUsers_nonempty nth_mem assms(3) by blast
  then have ne: "toLowerCase ?name \<noteq> []"
    by (simp add: toLowerCase_Nil_iff)
  show ?thesis
  proof (intro conjI impI)
    from mem low shown
    show "\<exists>k. (k, n) \<in> set ?um \<and> toLowerCase k = k
            \<and> username (results ! i) = (if k = [] then ?name else k)"
      by blast
    assume "\<forall>k. (k, n) \<in> set ?um \<longrightarrow> k = toLowerCase ?name"
    with mem have "k = toLowerCase ?name" by blast
    with shown ne show "username (results ! i) = toLowerCase ?name" by simp
  qed
qed

theorem shown_username_is_folded_key_witness:
  "fst (api_status sample None (Some [''ALICE''])) =
       Status200 [StatusResult ''alice'' (Num 7) ''Offline'' None None ''Offline'' ''Offline'']
   \<and> userMapOf sample [''ALICE''] = [(''alice'', 7)]
   \<and> username (StatusResult ''alice'' (Num 7) ''Offline'' None None ''Offline'' ''Offline'')
       = toLowerCase ''ALICE''"
proof -
  have run: "fst (api_status sample None (Some [''ALICE''])) =
       Status200 [StatusResult ''alice'' (Num 7) ''Offline'' None None ''Offline'' ''Offline'']"
    by (simp add: model_eval string_eval)
  have um: "userMapOf sample [''ALICE''] = [(''alice'', 7)]"
    by (simp add: model_eval string_eval)
  have u: "uniqueUsers [''ALICE''] = [''ALICE'']"
    by (simp add: model_eval string_eval)
  have low: "toLowerCase ''ALICE'' = ''alice''"
    by (simp add: string_eval)
  show ?thesis
    using shown_username_is_folded_key [OF _ run, where i = 0 and n = 7] run um
    by (simp add: u um low prop_get_def)
qed

text \<open>
  C9 as it is stated fails: for the input \<open>ALICE\<close>, which the upstream answers with
  the canonical name \<open>Alice\<close>, the record shows \<open>alice\<close>.
\<close>

theorem canonical_casing_lost_counterexample:
  "usernames_users sample [''ALICE''] = Some [(Some ''Alice'', 7)]
   \<and> fst (api_status sample None (Some [''ALICE''])) =
       Status200 [StatusResult ''alice'' (Num 7) ''Offline'' None None ''Offline'' ''Offline'']"
  by (simp add: model_eval string_eval)

end
